theory Spec2Isabelle
  imports Main "HOL-Library.Word"
begin

unbundle bit_operations_syntax

section \<open>Text and bytes\<close>

text \<open>
  A Python \<open>bytes\<close> value is a list of 8-bit words; a Python \<open>str\<close> is a list of
  Unicode code points. \<open>str\<close> turns an ASCII literal into such a list.
\<close>

type_synonym byte = "8 word"
type_synonym bytes = "byte list"
type_synonym pystr = "nat list"

definition str :: "string \<Rightarrow> pystr" where
  "str s = map of_char s"

subsection \<open>Constants of \<open>domain_substitution.py\<close>\<close>

definition INDEX_LIST_FILENAME :: pystr where
  "INDEX_LIST_FILENAME = str ''cache_index.list''"

definition INDEX_HASH_DELIMITER :: nat where
  "INDEX_HASH_DELIMITER = 124"

definition ORIG_DIR_NAME :: pystr where
  "ORIG_DIR_NAME = str ''orig''"

definition TIMESTAMP_DELTA :: int where
  "TIMESTAMP_DELTA = 1 * 10 ^ 9"

definition PATTERN_REPLACE_DELIMITER :: nat where
  "PATTERN_REPLACE_DELIMITER = 35"

subsection \<open>\<open>str.splitlines\<close> and \<open>str.split(sep, 1)\<close>\<close>

text \<open>
  The line boundaries of \<open>str.splitlines\<close>: LF, VT, FF, CR, FS, GS, RS, NEL, LS
  and PS; CR LF counts as one boundary. No empty string follows a final boundary.
\<close>

definition is_linebreak :: "nat \<Rightarrow> bool" where
  "is_linebreak c = (c = 10 \<or> c = 11 \<or> c = 12 \<or> c = 13 \<or> c = 28 \<or> c = 29 \<or> c = 30
     \<or> c = 133 \<or> c = 8232 \<or> c = 8233)"

fun split_acc :: "pystr \<Rightarrow> pystr \<Rightarrow> pystr list" where
  "split_acc cur [] = (if cur = [] then [] else [cur])"
| "split_acc cur [c] = (if is_linebreak c then [cur] else [cur @ [c]])"
| "split_acc cur (c # d # cs) =
     (if c = 13 \<and> d = 10 then cur # split_acc [] cs
      else if is_linebreak c then cur # split_acc [] (d # cs)
      else split_acc (cur @ [c]) (d # cs))"

definition splitlines :: "pystr \<Rightarrow> pystr list" where
  "splitlines s = split_acc [] s"

text \<open>
  \<open>s.split(sep, 1)\<close> for a one-character separator: the list \<open>[s]\<close> when \<open>sep\<close>
  does not occur, else the part before the first \<open>sep\<close> and the part after it.
\<close>

definition split1 :: "nat \<Rightarrow> pystr \<Rightarrow> pystr list" where
  "split1 sep s =
     (if sep \<in> set s then [takeWhile (\<lambda>c. c \<noteq> sep) s, tl (dropWhile (\<lambda>c. c \<noteq> sep) s)]
      else [s])"

fun join :: "pystr \<Rightarrow> pystr list \<Rightarrow> pystr" where
  "join sep [] = []"
| "join sep [x] = x"
| "join sep (x # y # ys) = x @ sep @ join sep (y # ys)"

subsection \<open>The codecs \<open>UTF-8\<close> and \<open>ISO-8859-1\<close>\<close>

definition utf8_encode_cp :: "nat \<Rightarrow> bytes option" where
  "utf8_encode_cp c =
     (if c < 128 then Some [of_nat c]
      else if c < 2048 then Some [of_nat (192 + c div 64), of_nat (128 + c mod 64)]
      else if 55296 \<le> c \<and> c < 57344 then None
      else if c < 65536 then
        Some [of_nat (224 + c div 4096), of_nat (128 + c div 64 mod 64), of_nat (128 + c mod 64)]
      else if c < 1114112 then
        Some [of_nat (240 + c div 262144), of_nat (128 + c div 4096 mod 64),
              of_nat (128 + c div 64 mod 64), of_nat (128 + c mod 64)]
      else None)"

text \<open>\<open>s.encode('UTF-8')\<close>; \<open>None\<close> is \<open>UnicodeEncodeError\<close> (a lone surrogate).\<close>

fun utf8_encode :: "pystr \<Rightarrow> bytes option" where
  "utf8_encode [] = Some []"
| "utf8_encode (c # cs) =
     (case utf8_encode_cp c of
        None \<Rightarrow> None
      | Some bs \<Rightarrow> map_option (\<lambda>r. bs @ r) (utf8_encode cs))"

definition is_cont :: "byte \<Rightarrow> bool" where
  "is_cont b = (128 \<le> unat b \<and> unat b < 192)"

text \<open>
  \<open>b.decode('UTF-8')\<close> with strict error handling; \<open>None\<close> is \<open>UnicodeDecodeError\<close>:
  a stray or missing continuation byte, an overlong form, a surrogate, or a value
  above U+10FFFF.
\<close>

fun utf8_decode :: "bytes \<Rightarrow> pystr option" where
  "utf8_decode [] = Some []"
| "utf8_decode (b0 # bs) =
     (if unat b0 < 128 then map_option (\<lambda>r. unat b0 # r) (utf8_decode bs)
      else if unat b0 < 194 then None
      else if unat b0 < 224 then
        (case bs of
           b1 # r \<Rightarrow>
             if is_cont b1
             then map_option (\<lambda>s. ((unat b0 - 192) * 64 + (unat b1 - 128)) # s) (utf8_decode r)
             else None
         | _ \<Rightarrow> None)
      else if unat b0 < 240 then
        (case bs of
           b1 # b2 # r \<Rightarrow>
             (let c = (unat b0 - 224) * 4096 + (unat b1 - 128) * 64 + (unat b2 - 128)
              in if is_cont b1 \<and> is_cont b2 \<and> 2048 \<le> c \<and> \<not> (55296 \<le> c \<and> c < 57344)
                 then map_option (\<lambda>s. c # s) (utf8_decode r)
                 else None)
         | _ \<Rightarrow> None)
      else if unat b0 < 245 then
        (case bs of
           b1 # b2 # b3 # r \<Rightarrow>
             (let c = (unat b0 - 240) * 262144 + (unat b1 - 128) * 4096
                      + (unat b2 - 128) * 64 + (unat b3 - 128)
              in if is_cont b1 \<and> is_cont b2 \<and> is_cont b3 \<and> 65536 \<le> c \<and> c < 1114112
                 then map_option (\<lambda>s. c # s) (utf8_decode r)
                 else None)
         | _ \<Rightarrow> None)
      else None)"

text \<open>\<open>b.decode('ISO-8859-1')\<close>: every byte is the code point of the same number.\<close>

definition latin1_decode :: "bytes \<Rightarrow> pystr" where
  "latin1_decode bs = map unat bs"

subsection \<open>\<open>zlib.crc32\<close>\<close>

text \<open>
  CRC-32 as zlib computes it: reflected polynomial \<open>0xEDB88320\<close>, register
  initialised to all ones, result complemented.
\<close>

definition crc_shift :: "32 word \<Rightarrow> 32 word" where
  "crc_shift c = (if bit c 0 then drop_bit 1 c XOR 0xEDB88320 else drop_bit 1 c)"

definition crc_byte :: "32 word \<Rightarrow> byte \<Rightarrow> 32 word" where
  "crc_byte c b = (crc_shift ^^ 8) (c XOR ucast b)"

definition crc32 :: "bytes \<Rightarrow> 32 word" where
  "crc32 bs = foldl crc_byte 0xFFFFFFFF bs XOR 0xFFFFFFFF"

subsection \<open>Hexadecimal formatting and parsing\<close>

definition hex_digit :: "nat \<Rightarrow> nat" where
  "hex_digit d = (if d < 10 then 48 + d else 87 + d)"

text \<open>\<open>'{:08x}'.format(n)\<close> for \<open>0 \<le> n < 2 ^ 32\<close>.\<close>

definition hex8 :: "32 word \<Rightarrow> pystr" where
  "hex8 w = map (\<lambda>i. hex_digit (unat w div 16 ^ i mod 16)) [7, 6, 5, 4, 3, 2, 1, 0]"

definition is_alnum :: "nat \<Rightarrow> bool" where
  "is_alnum c = ((97 \<le> c \<and> c \<le> 122) \<or> (65 \<le> c \<and> c \<le> 90) \<or> (48 \<le> c \<and> c \<le> 57))"

text \<open>
  \<open>re.compile(r'^[a-zA-Z0-9]{8}$').match(h)\<close>: eight ASCII letters or digits; \<open>$\<close>
  also matches just before a newline that ends the string.
\<close>

definition crc32_regex_match :: "pystr \<Rightarrow> bool" where
  "crc32_regex_match h =
     (let t = (if h \<noteq> [] \<and> last h = 10 then butlast h else h)
      in length t = 8 \<and> list_all is_alnum t)"

definition hex_val :: "nat \<Rightarrow> nat option" where
  "hex_val c =
     (if 48 \<le> c \<and> c \<le> 57 then Some (c - 48)
      else if 97 \<le> c \<and> c \<le> 102 then Some (c - 87)
      else if 65 \<le> c \<and> c \<le> 70 then Some (c - 55)
      else None)"

fun parse_hex :: "nat \<Rightarrow> pystr \<Rightarrow> nat option" where
  "parse_hex acc [] = Some acc"
| "parse_hex acc (c # cs) =
     (case hex_val c of None \<Rightarrow> None | Some d \<Rightarrow> parse_hex (16 * acc + d) cs)"

text \<open>
  \<open>int(h, 16)\<close> on the tokens that \<open>crc32_regex_match\<close> accepts; \<open>None\<close> is
  \<open>ValueError\<close>. Surrounding whitespace is stripped (here at most the final newline) and
  base 16 admits the prefix \<open>0x\<close> or \<open>0X\<close> before the digits.
\<close>

definition int_base16 :: "pystr \<Rightarrow> nat option" where
  "int_base16 h =
     (let t = (if h \<noteq> [] \<and> last h = 10 then butlast h else h);
          ds = (if take 2 t = str ''0x'' \<or> take 2 t = str ''0X'' then drop 2 t else t)
      in if ds = [] then None else parse_hex 0 ds)"


subsection \<open>\<open>pathlib\<close> and \<open>tarfile.open\<close>\<close>

text \<open>\<open>s.split(sep)\<close> for a one-character separator: every piece, empty ones included.\<close>

fun split_on :: "nat \<Rightarrow> pystr \<Rightarrow> pystr list" where
  "split_on sep [] = [[]]"
| "split_on sep (c # cs) =
     (if c = sep then [] # split_on sep cs
      else (case split_on sep cs of x # xs \<Rightarrow> (c # x) # xs | [] \<Rightarrow> [[c]]))"

text \<open>
  POSIX paths as \<open>pathlib\<close> reads them: the components between slashes, without the
  empty ones and the single dots (\<open>..\<close> stays); the root is \<open>/\<close>, or \<open>//\<close> for exactly two
  leading slashes. \<open>pure_path s\<close> is \<open>str(PurePosixPath(s))\<close> and \<open>path_join a b\<close> is
  \<open>str(PurePosixPath(a) / b)\<close>, where an absolute \<open>b\<close> replaces \<open>a\<close>.
\<close>

definition path_parts :: "pystr \<Rightarrow> pystr list" where
  "path_parts s = filter (\<lambda>c. c \<noteq> [] \<and> c \<noteq> str ''.'') (split_on 47 s)"

definition path_root :: "pystr \<Rightarrow> pystr" where
  "path_root s =
     (if take 2 s = str ''//'' \<and> take 3 s \<noteq> str ''///'' then str ''//''
      else if take 1 s = str ''/'' then str ''/''
      else [])"

definition pure_path :: "pystr \<Rightarrow> pystr" where
  "pure_path s =
     (if path_root s = [] \<and> path_parts s = [] then str ''.''
      else path_root s @ join (str ''/'') (path_parts s))"

definition path_join :: "pystr \<Rightarrow> pystr \<Rightarrow> pystr" where
  "path_join a b = (if path_root b \<noteq> [] then pure_path b else pure_path (a @ str ''/'' @ b))"

text \<open>
  \<open>PurePath.suffix\<close>: the part of the final component from its last dot on, when that
  dot is neither its first nor its last character; otherwise the empty string.
\<close>

definition path_suffix :: "pystr \<Rightarrow> pystr" where
  "path_suffix s =
     (let name = (if path_parts s = [] then [] else last (path_parts s));
          ext = rev (takeWhile (\<lambda>c. c \<noteq> 46) (rev name))
      in if 46 \<in> set name \<and> ext \<noteq> [] \<and> length ext + 1 < length name then 46 # ext else [])"

section \<open>The regular-expression library\<close>

text \<open>
  \<open>re.compile\<close> and \<open>Pattern.subn\<close> belong to the host language, so the engine is a
  parameter: \<open>re_compile\<close> returns \<open>None\<close> for \<open>re.error\<close>, and \<open>re_subn p repl s\<close>
  returns the rewritten string with the number of replacements, or \<open>None\<close> for the
  \<open>re.error\<close> of a bad replacement template.
\<close>

record 'p regex_engine =
  re_compile :: "pystr \<Rightarrow> 'p option"
  re_subn :: "'p \<Rightarrow> pystr \<Rightarrow> pystr \<Rightarrow> (pystr \<times> nat) option"

text \<open>
  One engine to run examples with: the fragment of the dialect whose patterns are
  literal characters and backslash-escaped ASCII punctuation, and whose replacement
  templates contain no backslash. It refuses everything outside that fragment, so
  examples that use it stay inside.
\<close>

definition is_meta :: "nat \<Rightarrow> bool" where
  "is_meta c = (c \<in> set (str ''.^$*+?{}[]|()'') \<or> c = 92)"

fun literal_compile :: "pystr \<Rightarrow> pystr option" where
  "literal_compile [] = Some []"
| "literal_compile [c] = (if is_meta c then None else Some [c])"
| "literal_compile (c # d # cs) =
     (if c = 92 then
        (if d < 128 \<and> \<not> is_alnum d \<and> d \<noteq> 95
         then map_option (\<lambda>r. d # r) (literal_compile cs) else None)
      else if is_meta c then None
      else map_option (\<lambda>r. c # r) (literal_compile (d # cs)))"

fun literal_scan :: "pystr \<Rightarrow> pystr \<Rightarrow> nat \<Rightarrow> pystr \<Rightarrow> pystr \<times> nat" where
  "literal_scan pat repl k [] = ([], 0)"
| "literal_scan pat repl (Suc k) (c # cs) = literal_scan pat repl k cs"
| "literal_scan pat repl 0 (c # cs) =
     (if take (length pat) (c # cs) = pat
      then (let (r, n) = literal_scan pat repl (length pat - 1) cs in (repl @ r, Suc n))
      else (let (r, n) = literal_scan pat repl 0 cs in (c # r, n)))"

definition literal_subn :: "pystr \<Rightarrow> pystr \<Rightarrow> pystr \<Rightarrow> (pystr \<times> nat) option" where
  "literal_subn pat repl s =
     (if 92 \<in> set repl then None
      else if pat = [] then Some (concat (map (\<lambda>c. repl @ [c]) s) @ repl, Suc (length s))
      else Some (literal_scan pat repl 0 s))"

definition literal_re :: "pystr regex_engine" where
  "literal_re = \<lparr>re_compile = literal_compile, re_subn = literal_subn\<rparr>"

section \<open>Errors, log records, files\<close>

datatype regex_problem = InvalidLineFormat pystr | CompileFailed pystr

datatype error =
    FileNotFoundError
  | FileExistsError
  | ValueError pystr
  | DomainRegexError regex_problem
  | UnicodeDecodeError
  | UnicodeEncodeError
  | RegexError
  | KeyError
  | TypeError
  | CompressionError

text \<open>The records the functions send to the logger at level INFO or above.\<close>

datatype log_record =
    WarnSkipMissing pystr
  | WarnSkipSymlink pystr
  | InfoNoSubstitutions pystr
  | WarnCannotStat pystr
  | WarnCannotUtime pystr
  | ErrIndexUnreadable
  | ErrCouldNotSplit pystr
  | ErrInvalidEntry pystr
  | ErrNotCRC32 pystr
  | ErrMissingFile pystr
  | ErrHashMismatch pystr
  | ErrCannotVerify pystr
  | ErrDuplicate pystr
  | WarnUnusedFile pystr
  | WarnCacheNotRemoved

text \<open>
  A file of the source tree: its bytes, its two timestamps in nanoseconds, and whether
  the path is a symbolic link (to a file with these bytes and timestamps; a dangling
  link does not exist for \<open>Path.exists\<close> and is absent from the tree).
\<close>

record tree_file =
  content :: bytes
  st_atime_ns :: int
  st_mtime_ns :: int
  is_symlink :: bool

text \<open>
  The file system as the two public functions see it: whether the source tree exists,
  its files, the cache archive at \<open>domainsub_cache\<close> (\<open>None\<close> when no file is there, else
  its members in the order they were added), and the log. The rule file and the list
  file are arguments.

  Several paths may name one file: \<open>pathlib\<close> drops empty components and single dots,
  and the operating system follows \<open>..\<close> and links. So \<open>tree\<close> holds each file once,
  under a key, and \<open>locate\<close> gives for a tree-relative path as written the key of the
  file that \<open>resolved_tree / relative_path\<close> names. No function changes \<open>locate\<close>.
\<close>

type_synonym tar_member = "pystr \<times> bytes"

record world =
  tree_exists :: bool
  locate :: "pystr \<Rightarrow> pystr"
  tree :: "pystr \<rightharpoonup> tree_file"
  cache :: "tar_member list option"
  log :: "log_record list"

definition add_log :: "log_record list \<Rightarrow> world \<Rightarrow> world" where
  "add_log rs w = w\<lparr>log := log w @ rs\<rparr>"

section \<open>Pattern Table: \<open>DomainRegexList\<close>\<close>

text \<open>\<open>__init__\<close>: \<open>tuple(filter(len, text.splitlines()))\<close>.\<close>

definition DomainRegexList :: "pystr \<Rightarrow> pystr list" where
  "DomainRegexList text = filter (\<lambda>line. length line \<noteq> 0) (splitlines text)"

definition compile_regex :: "'p regex_engine \<Rightarrow> pystr \<Rightarrow> error + ('p \<times> pystr)" where
  "compile_regex re line =
     (case split1 PATTERN_REPLACE_DELIMITER line of
        [pattern, replacement] \<Rightarrow>
          (case re_compile re pattern of
             None \<Rightarrow> Inl (DomainRegexError (CompileFailed pattern))
           | Some compiled_pattern \<Rightarrow> Inr (compiled_pattern, replacement))
      | _ \<Rightarrow> Inl (DomainRegexError (InvalidLineFormat line)))"

fun regex_pairs :: "'p regex_engine \<Rightarrow> pystr list \<Rightarrow> error + ('p \<times> pystr) list" where
  "regex_pairs re [] = Inr []"
| "regex_pairs re (line # rest) =
     (case compile_regex re line of
        Inl e \<Rightarrow> Inl e
      | Inr pair \<Rightarrow>
          (case regex_pairs re rest of Inl e \<Rightarrow> Inl e | Inr pairs \<Rightarrow> Inr (pair # pairs)))"

definition pattern_strings :: "pystr list \<Rightarrow> pystr list" where
  "pattern_strings data =
     map (\<lambda>line. case split1 PATTERN_REPLACE_DELIMITER line of p # _ \<Rightarrow> p | [] \<Rightarrow> []) data"

definition combined_pattern :: "pystr list \<Rightarrow> pystr" where
  "combined_pattern data = join (str ''|'') (pattern_strings data)"

definition search_regex :: "'p regex_engine \<Rightarrow> pystr list \<Rightarrow> 'p option" where
  "search_regex re data = re_compile re (combined_pattern data)"

section \<open>File Transformer\<close>

datatype encoding = UTF_8 | ISO_8859_1

definition TREE_ENCODINGS :: "encoding list" where
  "TREE_ENCODINGS = [UTF_8, ISO_8859_1]"

fun decode :: "encoding \<Rightarrow> bytes \<Rightarrow> pystr option" where
  "decode UTF_8 bs = utf8_decode bs"
| "decode ISO_8859_1 bs = Some (latin1_decode bs)"

fun decode_with :: "encoding list \<Rightarrow> bytes \<Rightarrow> error + pystr" where
  "decode_with [] content_bytes = Inl UnicodeDecodeError"
| "decode_with (enc # encs) content_bytes =
     (case decode enc content_bytes of
        Some s \<Rightarrow> Inr s
      | None \<Rightarrow> decode_with encs content_bytes)"

definition decode_file_content :: "bytes \<Rightarrow> error + pystr" where
  "decode_file_content content_bytes = decode_with TREE_ENCODINGS content_bytes"

fun subn_loop ::
  "'p regex_engine \<Rightarrow> pystr \<Rightarrow> nat \<Rightarrow> ('p \<times> pystr) list \<Rightarrow> error + (pystr \<times> nat)" where
  "subn_loop re text total_subs [] = Inr (text, total_subs)"
| "subn_loop re text total_subs ((pattern, replacement) # rest) =
     (case re_subn re pattern replacement text of
        None \<Rightarrow> Inl RegexError
      | Some (text', sub_count) \<Rightarrow> subn_loop re text' (total_subs + sub_count) rest)"

definition apply_regex_substitutions ::
  "'p regex_engine \<Rightarrow> pystr \<Rightarrow> ('p \<times> pystr) list \<Rightarrow> error + (pystr \<times> nat)" where
  "apply_regex_substitutions re text regex_iter = subn_loop re text 0 regex_iter"

text \<open>
  \<open>_substitute_path\<close>: \<open>Inr None\<close> is the result \<open>(None, None)\<close>. The file mode (write
  permission is added when missing) is not part of \<open>tree_file\<close>, and no read or write fails
  in this file system, so \<open>FileProcessingError\<close> has no branch.
\<close>

definition substitute_path ::
  "'p regex_engine \<Rightarrow> pystr \<Rightarrow> ('p \<times> pystr) list \<Rightarrow> world
     \<Rightarrow> (error + (32 word \<times> bytes) option) \<times> world" where
  "substitute_path re path regex_iter w =
     (case tree w path of
        None \<Rightarrow> (Inl FileNotFoundError, w)
      | Some f \<Rightarrow>
          (let original_content = content f in
           if original_content = [] then (Inr None, w)
           else case decode_file_content original_content of
             Inl e \<Rightarrow> (Inl e, w)
           | Inr text \<Rightarrow>
               (case apply_regex_substitutions re text regex_iter of
                  Inl e \<Rightarrow> (Inl e, w)
                | Inr (substituted_content, total_subs) \<Rightarrow>
                    if total_subs > 0 then
                      (case utf8_encode substituted_content of
                         None \<Rightarrow> (Inl UnicodeEncodeError, w)
                       | Some encoded_content \<Rightarrow>
                           (Inr (Some (crc32 encoded_content, original_content)),
                            w\<lparr>tree := (tree w)(path \<mapsto> f\<lparr>content := encoded_content\<rparr>)\<rparr>))
                    else (Inr None, w))))"

section \<open>Timestamps\<close>

definition utime :: "pystr \<Rightarrow> int \<times> int \<Rightarrow> world \<Rightarrow> world" where
  "utime path ns w =
     (case tree w path of
        None \<Rightarrow> add_log [WarnCannotUtime path] w
      | Some f \<Rightarrow>
          w\<lparr>tree := (tree w)(path \<mapsto> f\<lparr>st_atime_ns := fst ns, st_mtime_ns := snd ns\<rparr>)\<rparr>)"

text \<open>
  \<open>_update_timestamp\<close>, a context manager: \<open>body\<close> is the block it encloses. The new
  timestamps are computed before the block and written after it, also when the block
  raises (its result is then an error value).
\<close>

definition update_timestamp ::
  "pystr \<Rightarrow> bool \<Rightarrow> (world \<Rightarrow> 'a \<times> world) \<Rightarrow> world \<Rightarrow> 'a \<times> world" where
  "update_timestamp path set_new body w =
     (case tree w path of
        None \<Rightarrow> body (add_log [WarnCannotStat path] w)
      | Some stats \<Rightarrow>
          (let new_timestamp =
                 (if set_new
                  then (st_atime_ns stats + TIMESTAMP_DELTA, st_mtime_ns stats + TIMESTAMP_DELTA)
                  else (st_atime_ns stats - TIMESTAMP_DELTA, st_mtime_ns stats - TIMESTAMP_DELTA));
               (r, w') = body w
           in (r, utime path new_timestamp w')))"


section \<open>Cache Verifier\<close>

text \<open>
  \<open>_validate_index_entry\<close> returns its boolean, the set \<open>cache_index_files\<close> as it
  leaves it, and the records it logged. The set is kept as a list of its elements in
  insertion order; here the code only tests membership and adds. \<open>resolved_tree\<close> is the
  file system the paths are resolved in.
\<close>

definition validate_index_entry ::
  "pystr \<Rightarrow> world \<Rightarrow> pystr list \<Rightarrow> bool \<times> pystr list \<times> log_record list" where
  "validate_index_entry entry resolved_tree cache_index_files =
     (case split1 INDEX_HASH_DELIMITER entry of
        [relative_path, file_hash] \<Rightarrow>
          if relative_path = [] \<or> file_hash = []
          then (False, cache_index_files, [ErrInvalidEntry entry])
          else if \<not> crc32_regex_match file_hash
          then (False, cache_index_files, [ErrNotCRC32 relative_path])
          else
            (case tree resolved_tree (locate resolved_tree relative_path) of
               None \<Rightarrow> (False, cache_index_files, [ErrMissingFile relative_path])
             | Some f \<Rightarrow>
                 (case int_base16 file_hash of
                    None \<Rightarrow> (False, cache_index_files, [ErrCannotVerify relative_path])
                  | Some h \<Rightarrow>
                      if unat (crc32 (content f)) \<noteq> h
                      then (False, cache_index_files, [ErrHashMismatch relative_path])
                      else if relative_path \<in> set cache_index_files
                      then (False, cache_index_files, [ErrDuplicate relative_path])
                      else (True, cache_index_files @ [relative_path], [])))
      | _ \<Rightarrow> (False, cache_index_files, [ErrCouldNotSplit entry]))"

text \<open>The body of the loop of \<open>_validate_file_index\<close>, on \<open>all_hashes_valid\<close>, the set and the log.\<close>

definition validate_step ::
  "world \<Rightarrow> bool \<times> pystr list \<times> log_record list \<Rightarrow> pystr
     \<Rightarrow> bool \<times> pystr list \<times> log_record list" where
  "validate_step resolved_tree st entry =
     (case st of (all_hashes_valid, cache_index_files, lg) \<Rightarrow>
        (case validate_index_entry entry resolved_tree cache_index_files of
           (ok, cache_index_files', records) \<Rightarrow>
             (if \<not> ok then False else all_hashes_valid, cache_index_files', lg @ records)))"

definition validate_file_index ::
  "bytes \<Rightarrow> world \<Rightarrow> pystr list \<Rightarrow> bool \<times> pystr list \<times> log_record list" where
  "validate_file_index index_file resolved_tree cache_index_files =
     (case utf8_decode index_file of
        None \<Rightarrow> (False, cache_index_files, [ErrIndexUnreadable])
      | Some index_content \<Rightarrow>
          foldl (validate_step resolved_tree) (True, cache_index_files, [])
            (splitlines index_content))"

section \<open>Cache Writer: \<open>apply_substitution\<close>\<close>

text \<open>\<open>str(Path(ORIG_DIR_NAME) / relative_path)\<close>, the name of the archive member.\<close>

definition orig_member_name :: "pystr \<Rightarrow> pystr" where
  "orig_member_name relative_path = path_join ORIG_DIR_NAME relative_path"

definition index_line :: "pystr \<Rightarrow> 32 word \<Rightarrow> pystr" where
  "index_line relative_path crc32_hash =
     relative_path @ [INDEX_HASH_DELIMITER] @ hex8 crc32_hash @ [10]"

definition tar_addfile :: "pystr \<Rightarrow> bytes \<Rightarrow> world \<Rightarrow> world" where
  "tar_addfile name data w =
     w\<lparr>cache := (case cache w of None \<Rightarrow> None | Some members \<Rightarrow> Some (members @ [(name, data)]))\<rparr>"

text \<open>
  The body of the loop over the substitution list. The state is the file system and
  \<open>fileindex_content\<close>; \<open>Some e\<close> is the exception that ends the run; \<open>use_cache\<close> is the
  test \<open>if domainsub_cache\<close>; \<open>path\<close> is \<open>resolved_tree / relative_path\<close>.
\<close>

definition apply_entry ::
  "'p regex_engine \<Rightarrow> ('p \<times> pystr) list \<Rightarrow> bool \<Rightarrow> pystr \<Rightarrow> world \<times> bytes
     \<Rightarrow> error option \<times> world \<times> bytes" where
  "apply_entry re pairs use_cache relative_path st =
     (case st of (w, fileindex_content) \<Rightarrow>
        if INDEX_HASH_DELIMITER \<in> set relative_path
        then (Some (ValueError relative_path),
              (if use_cache then w\<lparr>cache := None\<rparr> else w), fileindex_content)
        else
          (let path = locate w relative_path in
           case tree w path of
             None \<Rightarrow> (None, add_log [WarnSkipMissing path] w, fileindex_content)
           | Some f \<Rightarrow>
               if is_symlink f
               then (None, add_log [WarnSkipSymlink path] w, fileindex_content)
               else
                 (case update_timestamp path True (substitute_path re path pairs) w of
                    (Inl e, w1) \<Rightarrow> (Some e, w1, fileindex_content)
                  | (Inr None, w1) \<Rightarrow>
                      (None, add_log [InfoNoSubstitutions relative_path] w1, fileindex_content)
                  | (Inr (Some (crc32_hash, orig_content)), w1) \<Rightarrow>
                      if use_cache then
                        (case utf8_encode (index_line relative_path crc32_hash) of
                           None \<Rightarrow> (Some UnicodeEncodeError, w1, fileindex_content)
                         | Some line_bytes \<Rightarrow>
                             (None,
                              tar_addfile (orig_member_name relative_path) orig_content w1,
                              fileindex_content @ line_bytes))
                      else (None, w1, fileindex_content))))"

fun apply_entries ::
  "'p regex_engine \<Rightarrow> ('p \<times> pystr) list \<Rightarrow> bool \<Rightarrow> pystr list \<Rightarrow> world \<times> bytes
     \<Rightarrow> error option \<times> world \<times> bytes" where
  "apply_entries re pairs use_cache [] st = (None, st)"
| "apply_entries re pairs use_cache (relative_path # rest) st =
     (case apply_entry re pairs use_cache relative_path st of
        (Some e, st') \<Rightarrow> (Some e, st')
      | (None, st') \<Rightarrow> apply_entries re pairs use_cache rest st')"

definition list_entries :: "pystr \<Rightarrow> pystr list" where
  "list_entries files_text = filter (\<lambda>line. length line \<noteq> 0) (splitlines files_text)"

text \<open>
  \<open>tarfile.open(name, 'w:' + comptype, compresslevel=1)\<close> in CPython up to 3.13: the
  exception it raises, if any, and whether it has created the file by then. Only the
  \<open>gz\<close> and \<open>bz2\<close> writers take \<open>compresslevel\<close>. The \<open>xz\<close> writer creates the file and
  then fails with \<open>TypeError\<close>, leaving the file; the plain writer (an empty \<open>comptype\<close>
  stands for \<open>tar\<close>) fails with \<open>TypeError\<close> before it creates anything; any other
  \<open>comptype\<close> is a \<open>CompressionError\<close>.
\<close>

definition tarfile_open_w :: "pystr \<Rightarrow> error option \<times> bool" where
  "tarfile_open_w comptype =
     (if comptype = str ''gz'' \<or> comptype = str ''bz2'' then (None, True)
      else if comptype = str ''xz'' then (Some TypeError, True)
      else if comptype = [] \<or> comptype = str ''tar'' then (Some TypeError, False)
      else (Some CompressionError, False))"

text \<open>
  \<open>apply_substitution\<close>. The rule file and the list file are given by their text, \<open>None\<close>
  when the file does not exist; \<open>domainsub_cache\<close> is the path of the cache archive, or
  \<open>None\<close>. Without it the loop runs on \<open>os.devnull\<close> and the archive is not touched.
\<close>

definition apply_substitution ::
  "'p regex_engine \<Rightarrow> pystr option \<Rightarrow> pystr option \<Rightarrow> pystr option \<Rightarrow> world
     \<Rightarrow> error option \<times> world" where
  "apply_substitution re regex_file files_file domainsub_cache w =
     (if \<not> tree_exists w then (Some FileNotFoundError, w)
      else case regex_file of
        None \<Rightarrow> (Some FileNotFoundError, w)
      | Some regex_text \<Rightarrow>
          (case files_file of
             None \<Rightarrow> (Some FileNotFoundError, w)
           | Some files_text \<Rightarrow>
               if domainsub_cache \<noteq> None \<and> cache w \<noteq> None then (Some FileExistsError, w)
               else
                 (case regex_pairs re (DomainRegexList regex_text) of
                    Inl e \<Rightarrow> (Some e, w)
                  | Inr pairs \<Rightarrow>
                      (case domainsub_cache of
                         None \<Rightarrow>
                           (case apply_entries re pairs False (list_entries files_text) (w, []) of
                              (e, w1, fileindex_content) \<Rightarrow> (e, w1))
                       | Some cache_path \<Rightarrow>
                           (case tarfile_open_w (drop 1 (path_suffix cache_path)) of
                              (Some e, created) \<Rightarrow>
                                (Some e, if created then w\<lparr>cache := Some []\<rparr> else w)
                            | (None, created) \<Rightarrow>
                                (case apply_entries re pairs True (list_entries files_text)
                                        (w\<lparr>cache := Some []\<rparr>, []) of
                                   (Some e, w1, fileindex_content) \<Rightarrow> (Some e, w1)
                                 | (None, w1, fileindex_content) \<Rightarrow>
                                     (None,
                                      tar_addfile INDEX_LIST_FILENAME fileindex_content w1)))))))"

section \<open>Revert Engine: \<open>revert_substitution\<close>\<close>

text \<open>
  Modelled from the spec: \<open>extract_tar_file\<close> of \<open>_extraction.py\<close>, which is not among
  the sources. It unpacks every member of the archive under the destination directory;
  a later member of the same name replaces an earlier one. The directory is a list of
  named files, each name once.
\<close>

definition extract_member :: "tar_member list \<Rightarrow> tar_member \<Rightarrow> tar_member list" where
  "extract_member dir m = filter (\<lambda>e. fst e \<noteq> fst m) dir @ [m]"

definition extract_tar_file :: "tar_member list \<Rightarrow> tar_member list" where
  "extract_tar_file members = foldl extract_member [] members"

text \<open>
  The block under \<open>_update_timestamp\<close> in the loop of \<open>revert_substitution\<close>:
  \<open>Path.replace\<close> moves the extracted original (the file unpacked from the member
  \<open>orig_member_name relative_path\<close>) over the tree file, and raises
  \<open>FileNotFoundError\<close> when there is no such extracted file. The moved file arrives
  with the timestamps of the extraction, which \<open>_update_timestamp\<close> overwrites at once.
\<close>

definition replace_orig ::
  "pystr \<Rightarrow> tar_member list \<Rightarrow> world \<Rightarrow> (error option \<times> tar_member list) \<times> world" where
  "replace_orig relative_path extracted w =
     (case map_of extracted (orig_member_name relative_path) of
        None \<Rightarrow> ((Some FileNotFoundError, extracted), w)
      | Some data \<Rightarrow>
          ((None, filter (\<lambda>e. fst e \<noteq> orig_member_name relative_path) extracted),
           w\<lparr>tree := (tree w)(locate w relative_path \<mapsto>
                \<lparr>content = data, st_atime_ns = 0, st_mtime_ns = 0, is_symlink = False\<rparr>)\<rparr>))"

text \<open>The loop over \<open>cache_index_files\<close>, in the order in which the set is iterated.\<close>

fun revert_entries ::
  "pystr list \<Rightarrow> tar_member list \<times> world \<Rightarrow> error option \<times> tar_member list \<times> world" where
  "revert_entries [] st = (None, st)"
| "revert_entries (relative_path # rest) st =
     (case st of (extracted, w) \<Rightarrow>
        (case update_timestamp (locate w relative_path) False
                (replace_orig relative_path extracted) w of
           ((Some e, extracted'), w') \<Rightarrow> (Some e, extracted', w')
         | ((None, extracted'), w') \<Rightarrow> revert_entries rest (extracted', w')))"

text \<open>The test for a file that \<open>rglob\<close> finds under the extracted \<open>orig\<close> directory.\<close>

definition is_orig_file :: "pystr \<Rightarrow> bool" where
  "is_orig_file name =
     (take (length ORIG_DIR_NAME + 1) name = ORIG_DIR_NAME @ str ''/''
      \<and> length ORIG_DIR_NAME + 1 < length name)"

text \<open>
  \<open>revert_substitution\<close>. The temporary directory it extracts into lies inside the
  tree and is removed on every exit, so it is not a file of \<open>tree\<close>. Python iterates a
  set in an order of its own choosing: \<open>set_order\<close> turns the elements of
  \<open>cache_index_files\<close> into the sequence in which the loop visits them. Likewise
  \<open>rglob\<close> yields the files left under \<open>orig\<close> in the order of the directory listing:
  \<open>rglob_order\<close> turns them into the sequence in which they are reported.
\<close>

definition revert_substitution ::
  "(pystr list \<Rightarrow> pystr list) \<Rightarrow> (pystr list \<Rightarrow> pystr list) \<Rightarrow> world
     \<Rightarrow> error option \<times> world" where
  "revert_substitution set_order rglob_order w =
     (case cache w of
        None \<Rightarrow> (Some FileNotFoundError, w)
      | Some members \<Rightarrow>
          if \<not> tree_exists w then (Some FileNotFoundError, w)
          else
            (let extracted = extract_tar_file members in
             case map_of extracted INDEX_LIST_FILENAME of
               None \<Rightarrow> (Some FileNotFoundError, w)
             | Some index_file \<Rightarrow>
                 (case validate_file_index index_file w [] of
                    (valid, cache_index_files, records) \<Rightarrow>
                      if \<not> valid then (Some KeyError, add_log records w)
                      else
                        (case revert_entries (set_order cache_index_files)
                                (extracted, add_log records w) of
                           (Some e, extracted', w') \<Rightarrow> (Some e, w')
                         | (None, extracted', w') \<Rightarrow>
                             (let unused = rglob_order (filter is_orig_file (map fst extracted')) in
                              if unused \<noteq> []
                              then (None, add_log (map WarnUnusedFile unused @ [WarnCacheNotRemoved]) w')
                              else (None, w'\<lparr>cache := None\<rparr>))))))"


section \<open>The entries recorded by the loop of \<open>apply_substitution\<close>\<close>

text \<open>
  The text that \<open>fileindex_content\<close> holds once the loop has written, in this order, the
  lines of the entries \<open>L\<close>, each a path with the hash written for it.
\<close>

definition index_text :: "(pystr \<times> 32 word) list \<Rightarrow> pystr" where
  "index_text L = concat (map (\<lambda>(r, c). index_line r c) L)"

text \<open>
  The state of the loop in terms of the entries \<open>L\<close> it has substituted so far, \<open>w0\<close>
  being the file system at the start: \<open>fileindex_content\<close> is the encoded text of \<open>L\<close>;
  the archive is open; and every file whose bytes differ from those in \<open>w0\<close> is the file
  of an entry of \<open>L\<close> whose hash is the checksum of the bytes the file holds now.
\<close>

definition written :: "world \<Rightarrow> world \<Rightarrow> bytes \<Rightarrow> (pystr \<times> 32 word) list \<Rightarrow> bool" where
  "written w0 w idx L \<longleftrightarrow>
     locate w = locate w0 \<and> tree_exists w = tree_exists w0 \<and> cache w \<noteq> None
     \<and> utf8_encode (index_text L) = Some idx
     \<and> (\<forall>(r, c) \<in> set L. (\<forall>ch \<in> set r. \<not> is_linebreak ch) \<and> INDEX_HASH_DELIMITER \<notin> set r)
     \<and> (\<forall>k. map_option content (tree w k) = map_option content (tree w0 k)
            \<or> (\<exists>(r, c) \<in> set L. locate w0 r = k
                  \<and> (\<exists>f. tree w k = Some f \<and> crc32 (content f) = c)))"

section \<open>Example inputs\<close>

text \<open>
  The rule \<open>example\.com#example.invalid\<close>; a tree with the one file \<open>config.txt\<close>,
  in which paths are located by their \<open>pathlib\<close> form; the same tree after
  \<open>apply_substitution\<close> with the cache \<open>cache.tar.gz\<close>, after an apply that was
  aborted, and with a cache that holds one original more than its index names; and a
  tree with a second file, \<open>notes.txt\<close>.
\<close>

definition example_rules :: pystr where
  "example_rules = str ''example'' @ [92] @ str ''.com#example.invalid''"

definition example_file :: tree_file where
  "example_file =
     \<lparr>content = map of_nat (str ''Visit example.com today''),
      st_atime_ns = 1700000000000000000, st_mtime_ns = 1600000000000000000,
      is_symlink = False\<rparr>"

definition example_world :: world where
  "example_world =
     \<lparr>tree_exists = True, locate = pure_path, tree = [str ''config.txt'' \<mapsto> example_file],
      cache = None, log = []\<rparr>"

definition example_substituted :: world where
  "example_substituted =
     \<lparr>tree_exists = True, locate = pure_path,
      tree = [str ''config.txt'' \<mapsto>
        \<lparr>content = map of_nat (str ''Visit example.invalid today''),
         st_atime_ns = 1700000001000000000, st_mtime_ns = 1600000001000000000,
         is_symlink = False\<rparr>],
      cache = Some [(str ''orig/config.txt'', map of_nat (str ''Visit example.com today'')),
                    (str ''cache_index.list'', map of_nat (str ''config.txt|41e1be44'' @ [10]))],
      log = []\<rparr>"

definition example_aborted :: world where
  "example_aborted = example_substituted\<lparr>cache := None\<rparr>"

definition example_with_unused :: world where
  "example_with_unused =
     example_substituted
       \<lparr>cache := Some [(str ''orig/config.txt'', map of_nat (str ''Visit example.com today'')),
                       (str ''orig/stale.txt'', map of_nat (str ''old'')),
                       (str ''cache_index.list'', map of_nat (str ''config.txt|41e1be44'' @ [10]))]\<rparr>"

definition example_two_files :: world where
  "example_two_files =
     \<lparr>tree_exists = True, locate = pure_path,
      tree = [str ''config.txt'' \<mapsto> example_file, str ''notes.txt'' \<mapsto> example_file],
      cache = None, log = []\<rparr>"

text \<open>
  The substituted tree with a cache whose index holds the one malformed line \<open>bogus\<close>;
  and the substituted tree after the first byte of \<open>config.txt\<close> was changed.
\<close>

definition example_corrupt :: world where
  "example_corrupt =
     example_substituted
       \<lparr>cache := Some [(str ''orig/config.txt'', map of_nat (str ''Visit example.com today'')),
                       (str ''cache_index.list'', map of_nat (str ''bogus'' @ [10]))]\<rparr>"

definition example_mutated :: world where
  "example_mutated =
     example_substituted
       \<lparr>tree := [str ''config.txt'' \<mapsto>
          \<lparr>content = map of_nat (str ''visit example.invalid today''),
           st_atime_ns = 1700000002000000000, st_mtime_ns = 1700000002000000000,
           is_symlink = False\<rparr>]\<rparr>"

section \<open>Facts about the library functions\<close>

lemma str_simps: "str [] = []" "str (c # cs) = of_char c # str cs"
  by (simp_all add: str_def)

lemma split1_no_sep: "sep \<notin> set s \<Longrightarrow> split1 sep s = [s]"
  by (simp add: split1_def)

lemma split1_sep:
  "sep \<in> set s \<Longrightarrow>
     split1 sep s = [takeWhile (\<lambda>c. c \<noteq> sep) s, tl (dropWhile (\<lambda>c. c \<noteq> sep) s)]"
  by (simp add: split1_def)

lemma split1_append: "sep \<notin> set a \<Longrightarrow> split1 sep (a @ sep # b) = [a, b]"
  by (induction a) (auto simp: split1_def)

lemma crc_byte_unfold:
  "crc_byte c b =
     crc_shift (crc_shift (crc_shift (crc_shift (crc_shift (crc_shift
       (crc_shift (crc_shift (c XOR ucast b))))))))"
  by (simp add: crc_byte_def eval_nat_numeral)

text \<open>The equations that evaluate the functions on the example inputs.\<close>

lemmas eval_defs = str_simps crc32_def crc_byte_unfold crc_shift_def
  example_rules_def example_file_def example_world_def
  apply_substitution_def DomainRegexList_def list_entries_def splitlines_def is_linebreak_def
  compile_regex_def split1_def PATTERN_REPLACE_DELIMITER_def INDEX_HASH_DELIMITER_def
  literal_re_def is_meta_def is_alnum_def literal_subn_def
  apply_entry_def update_timestamp_def substitute_path_def decode_file_content_def
  TREE_ENCODINGS_def apply_regex_substitutions_def utf8_encode_cp_def utime_def
  TIMESTAMP_DELTA_def index_line_def hex8_def hex_digit_def tar_addfile_def
  orig_member_name_def ORIG_DIR_NAME_def INDEX_LIST_FILENAME_def add_log_def
  path_join_def pure_path_def path_parts_def path_root_def path_suffix_def
  tarfile_open_w_def Let_def

lemmas revert_defs = revert_substitution_def extract_tar_file_def extract_member_def
  validate_file_index_def validate_step_def validate_index_entry_def is_cont_def
  crc32_regex_match_def int_base16_def hex_val_def replace_orig_def is_orig_file_def

lemma example_apply:
  "apply_substitution literal_re (Some example_rules) (Some (str ''config.txt''))
     (Some (str ''cache.tar.gz'')) example_world = (None, example_substituted)"
  by (simp add: eval_defs example_substituted_def)

lemma example_revert: "revert_substitution rev rev example_substituted = (None, example_world)"
  by (simp add: eval_defs revert_defs example_substituted_def)

lemma example_apply_aborted:
  "apply_substitution literal_re (Some example_rules)
     (Some (str ''config.txt'' @ [10] @ str ''a|b'')) (Some (str ''cache.tar.gz'')) example_world
   = (Some (ValueError (str ''a|b'')), example_aborted)"
  by (simp add: eval_defs example_substituted_def example_aborted_def)

lemma example_revert_unused:
  "revert_substitution rev rev example_with_unused =
     (None, example_world\<lparr>cache := cache example_with_unused,
        log := [WarnUnusedFile (str ''orig/stale.txt''), WarnCacheNotRemoved]\<rparr>)"
  by (simp add: eval_defs revert_defs example_substituted_def example_with_unused_def)

section \<open>Pattern Table\<close>

lemma compile_regex_no_delimiter:
  "PATTERN_REPLACE_DELIMITER \<notin> set line \<Longrightarrow>
     compile_regex re line = Inl (DomainRegexError (InvalidLineFormat line))"
  by (simp add: compile_regex_def split1_no_sep)

lemma compile_regex_delimiter:
  "PATTERN_REPLACE_DELIMITER \<in> set line \<Longrightarrow>
     compile_regex re line =
       (case re_compile re (takeWhile (\<lambda>c. c \<noteq> PATTERN_REPLACE_DELIMITER) line) of
          None \<Rightarrow> Inl (DomainRegexError
                    (CompileFailed (takeWhile (\<lambda>c. c \<noteq> PATTERN_REPLACE_DELIMITER) line)))
        | Some p \<Rightarrow> Inr (p, tl (dropWhile (\<lambda>c. c \<noteq> PATTERN_REPLACE_DELIMITER) line)))"
  by (simp add: compile_regex_def split1_sep)

lemma regex_pairs_format_error:
  "regex_pairs re data = Inl (DomainRegexError (InvalidLineFormat l)) \<Longrightarrow>
     l \<in> set data \<and> PATTERN_REPLACE_DELIMITER \<notin> set l"
proof (induction data)
  case Nil
  then show ?case by simp
next
  case (Cons line rest)
  show ?case
  proof (cases "PATTERN_REPLACE_DELIMITER \<in> set line")
    case True
    with Cons show ?thesis
      by (auto simp: compile_regex_delimiter split: option.splits sum.splits)
  next
    case False
    with Cons show ?thesis
      by (auto simp: compile_regex_no_delimiter)
  qed
qed

lemma regex_pairs_aborts:
  "line \<in> set data \<Longrightarrow> PATTERN_REPLACE_DELIMITER \<notin> set line \<Longrightarrow>
     \<exists>e. regex_pairs re data = Inl (DomainRegexError e)"
proof (induction data)
  case Nil
  then show ?case by simp
next
  case (Cons l rest)
  show ?case
  proof (cases "PATTERN_REPLACE_DELIMITER \<in> set l")
    case True
    with Cons show ?thesis
      by (auto simp: compile_regex_delimiter split: option.splits sum.splits)
  next
    case False
    then show ?thesis by (simp add: compile_regex_no_delimiter)
  qed
qed

text \<open>
  C5, as stated, fails: the rule file \<open>#comment\<close> yields the pair of the empty pattern
  and the replacement \<open>comment\<close>, and in the rule file with the lines \<open>#c\<close> and \<open>a#b\<close>
  the combined search expression is \<open>|a\<close>, whose first alternative is the empty
  pattern of the line \<open>#c\<close>.
\<close>

theorem hash_line_not_comment_counterexample:
  "regex_pairs literal_re (DomainRegexList (str ''#comment'')) = Inr [([], str ''comment'')]
   \<and> combined_pattern (DomainRegexList (str ''#c'' @ [10] @ str ''a#b'')) = str ''|a''"
  by (simp add: DomainRegexList_def splitlines_def is_linebreak_def compile_regex_def
      split1_def PATTERN_REPLACE_DELIMITER_def str_simps literal_re_def is_meta_def
      combined_pattern_def pattern_strings_def)

text \<open>
  C5, amended: a rule-file line that begins with \<open>#\<close> is not a comment. It stays in the
  data of the Pattern Table (only empty lines are dropped); \<open>#\<close> being the delimiter,
  the line is split at that first character, so it gives \<open>regex_pairs\<close> the pair of the
  empty pattern and the rest of the line (or aborts when the empty pattern does not
  compile), and it gives the combined search expression the empty alternative.
\<close>

theorem hash_line_is_rule:
  "(PATTERN_REPLACE_DELIMITER # rest \<in> set (splitlines text)
      \<longrightarrow> PATTERN_REPLACE_DELIMITER # rest \<in> set (DomainRegexList text))
   \<and> compile_regex re (PATTERN_REPLACE_DELIMITER # rest) =
       (case re_compile re [] of
          None \<Rightarrow> Inl (DomainRegexError (CompileFailed []))
        | Some p \<Rightarrow> Inr (p, rest))
   \<and> pattern_strings (before @ (PATTERN_REPLACE_DELIMITER # rest) # after) =
       pattern_strings before @ [] # pattern_strings after"
  by (simp add: DomainRegexList_def compile_regex_def split1_def pattern_strings_def)

theorem hash_line_is_rule_witness:
  "str ''#c'' \<in> set (splitlines (str ''#c'' @ [10] @ str ''a#b''))
   \<and> str ''#c'' \<in> set (DomainRegexList (str ''#c'' @ [10] @ str ''a#b''))
   \<and> compile_regex literal_re (str ''#c'') = Inr ([], str ''c'')
   \<and> pattern_strings [str ''#c'', str ''a#b''] = [[], str ''a'']"
  using hash_line_is_rule [of "str ''c''" "str ''#c'' @ [10] @ str ''a#b''" literal_re "[]"
      "[str ''a#b'']"]
  by (simp add: splitlines_def is_linebreak_def PATTERN_REPLACE_DELIMITER_def str_simps
      literal_re_def pattern_strings_def split1_def)

text \<open>
  C6, as stated, fails: the line \<open>a#b#c\<close> holds two delimiters and is not malformed; it
  is split at the first one into the pattern \<open>a\<close> and the replacement \<open>b#c\<close>.
\<close>

theorem two_delimiters_counterexample:
  "compile_regex literal_re (str ''a#b#c'') = Inr (str ''a'', str ''b#c'')"
  by (simp add: compile_regex_def split1_def PATTERN_REPLACE_DELIMITER_def str_simps
      literal_re_def is_meta_def)

text \<open>
  C6, amended: Pattern Table construction aborts with a rule-format error exactly on
  the non-empty rule lines that contain no delimiter character. A table with such a
  line aborts; a rule-format error names a line of the table without delimiter; and a
  line with one delimiter or more is split at its first delimiter (there is no escape),
  the further delimiters staying in the replacement, so that it can abort only when its
  pattern does not compile.
\<close>

theorem rule_format_error_iff_no_delimiter:
  "(line \<in> set data \<and> PATTERN_REPLACE_DELIMITER \<notin> set line
      \<longrightarrow> (\<exists>e. regex_pairs re data = Inl (DomainRegexError e)))
   \<and> (regex_pairs re data = Inl (DomainRegexError (InvalidLineFormat l))
      \<longrightarrow> l \<in> set data \<and> PATTERN_REPLACE_DELIMITER \<notin> set l)
   \<and> (PATTERN_REPLACE_DELIMITER \<notin> set pattern \<longrightarrow>
        compile_regex re (pattern @ PATTERN_REPLACE_DELIMITER # replacement) =
          (case re_compile re pattern of
             None \<Rightarrow> Inl (DomainRegexError (CompileFailed pattern))
           | Some p \<Rightarrow> Inr (p, replacement)))"
  using regex_pairs_aborts [of line data re] regex_pairs_format_error [of re data l]
  by (simp add: compile_regex_def split1_append)

theorem rule_format_error_iff_no_delimiter_witness:
  "str ''ab'' \<in> set [str ''x#y'', str ''ab'']
   \<and> PATTERN_REPLACE_DELIMITER \<notin> set (str ''ab'')
   \<and> regex_pairs literal_re [str ''x#y'', str ''ab'']
       = Inl (DomainRegexError (InvalidLineFormat (str ''ab'')))
   \<and> PATTERN_REPLACE_DELIMITER \<notin> set (str ''a'')
   \<and> compile_regex literal_re (str ''a'' @ PATTERN_REPLACE_DELIMITER # str ''b#c'')
       = Inr (str ''a'', str ''b#c'')"
  using rule_format_error_iff_no_delimiter [of "str ''ab''" "[str ''x#y'', str ''ab'']"
      literal_re "str ''ab''" "str ''a''" "str ''b#c''"]
  by (simp add: PATTERN_REPLACE_DELIMITER_def str_simps literal_re_def is_meta_def
      compile_regex_def split1_def)

section \<open>File Transformer\<close>

text \<open>
  C10: for every byte string the content decoding of the File Transformer returns a
  string, the UTF-8 decoding when there is one and the ISO-8859-1 decoding otherwise;
  the branch that raises the decode error is never reached.
\<close>

theorem decode_file_content_total:
  "decode_file_content content_bytes =
     Inr (case utf8_decode content_bytes of
            Some s \<Rightarrow> s
          | None \<Rightarrow> latin1_decode content_bytes)"
  by (simp add: decode_file_content_def TREE_ENCODINGS_def split: option.split)

theorem decode_file_content_total_witness:
  "decode_file_content [233] = Inr [233] \<and> decode_file_content [195, 169] = Inr [233]"
  using decode_file_content_total [of "[233]"] decode_file_content_total [of "[195, 169]"]
  by (simp add: latin1_decode_def is_cont_def)

section \<open>Timestamps\<close>

lemma update_timestamp_stamps:
  assumes "tree w path = Some stats" and "body w = (r, w')" and "tree w' path = Some f'"
  shows "tree (snd (update_timestamp path set_new body w)) path =
     Some (f'\<lparr>st_atime_ns := st_atime_ns stats + (if set_new then 1000000000 else - 1000000000),
              st_mtime_ns := st_mtime_ns stats + (if set_new then 1000000000 else - 1000000000)\<rparr>)"
  using assms by (simp add: update_timestamp_def utime_def TIMESTAMP_DELTA_def)

lemma substitute_path_keeps:
  "tree w path = Some f \<Longrightarrow> \<exists>f'. tree (snd (substitute_path re path pairs w)) path = Some f'"
  by (auto simp: substitute_path_def Let_def split: sum.splits option.splits prod.splits)

lemma replace_orig_keeps:
  "tree w (locate w p) = Some f \<Longrightarrow>
     \<exists>f'. tree (snd (replace_orig p d w)) (locate w p) = Some f'"
  by (auto simp: replace_orig_def split: option.splits)

lemma apply_entry_stamps:
  assumes "INDEX_HASH_DELIMITER \<notin> set p" "tree w (locate w p) = Some f" "\<not> is_symlink f"
  shows "\<exists>f'. tree (fst (snd (apply_entry re pairs uc p (w, idx)))) (locate w p) = Some f'
     \<and> st_atime_ns f' = st_atime_ns f + 1000000000
     \<and> st_mtime_ns f' = st_mtime_ns f + 1000000000"
proof -
  let ?path = "locate w p"
  obtain r w1 where b: "substitute_path re ?path pairs w = (r, w1)"
    by (cases "substitute_path re ?path pairs w")
  from substitute_path_keeps [OF assms(2), of re pairs] b
  obtain f1 where f1: "tree w1 ?path = Some f1" by auto
  from update_timestamp_stamps
    [where body = "substitute_path re ?path pairs" and set_new = True, OF assms(2) b f1]
  have u: "tree (snd (update_timestamp ?path True (substitute_path re ?path pairs) w)) ?path =
     Some (f1\<lparr>st_atime_ns := st_atime_ns f + 1000000000,
              st_mtime_ns := st_mtime_ns f + 1000000000\<rparr>)"
    by simp
  obtain r2 w2 where c: "update_timestamp ?path True (substitute_path re ?path pairs) w = (r2, w2)"
    by (cases "update_timestamp ?path True (substitute_path re ?path pairs) w")
  with u have w2: "tree w2 ?path =
     Some (f1\<lparr>st_atime_ns := st_atime_ns f + 1000000000,
              st_mtime_ns := st_mtime_ns f + 1000000000\<rparr>)"
    by simp
  show ?thesis using assms c w2
    by (auto simp: apply_entry_def add_log_def tar_addfile_def Let_def
        split: sum.splits option.splits prod.splits)
qed

lemma revert_entry_stamps:
  assumes "tree w (locate w p) = Some f"
  shows "\<exists>f'. tree (snd (snd (revert_entries [p] (d, w)))) (locate w p) = Some f'
     \<and> st_atime_ns f' = st_atime_ns f - 1000000000
     \<and> st_mtime_ns f' = st_mtime_ns f - 1000000000"
proof -
  let ?path = "locate w p"
  obtain r w1 where b: "replace_orig p d w = (r, w1)" by (cases "replace_orig p d w")
  from replace_orig_keeps [OF assms, of d] b obtain f1 where f1: "tree w1 ?path = Some f1"
    by auto
  from update_timestamp_stamps
    [where body = "replace_orig p d" and set_new = False, OF assms b f1]
  have u: "tree (snd (update_timestamp ?path False (replace_orig p d) w)) ?path =
     Some (f1\<lparr>st_atime_ns := st_atime_ns f - 1000000000,
              st_mtime_ns := st_mtime_ns f - 1000000000\<rparr>)"
    by simp
  obtain e d2 w2 where c: "update_timestamp ?path False (replace_orig p d) w = ((e, d2), w2)"
    by (cases "update_timestamp ?path False (replace_orig p d) w") auto
  with u have w2: "tree w2 ?path =
     Some (f1\<lparr>st_atime_ns := st_atime_ns f - 1000000000,
              st_mtime_ns := st_mtime_ns f - 1000000000\<rparr>)"
    by simp
  show ?thesis using c w2 by (cases e) auto
qed

text \<open>
  C9, as stated, fails: apply moves the modification time of \<open>config.txt\<close> from
  1600000000000000000 ns to 1600000001000000000 ns, forward by \<open>10 ^ 9\<close> ns, which is one
  second and less than one year (\<open>365 * 24 * 3600 * 10 ^ 9\<close> ns), not about 31.7 years.
\<close>

theorem timestamp_delta_counterexample:
  "map_option st_mtime_ns (tree example_world (str ''config.txt'')) = Some 1600000000000000000
   \<and> map_option st_mtime_ns
       (tree (snd (apply_substitution literal_re (Some example_rules) (Some (str ''config.txt''))
          (Some (str ''cache.tar.gz'')) example_world)) (str ''config.txt''))
       = Some (1600000000000000000 + 1000000000)
   \<and> TIMESTAMP_DELTA = 1000000000
   \<and> (1000000000 :: int) < 365 * 24 * 3600 * 1000000000"
  by (simp add: example_apply)
    (simp add: example_world_def example_file_def example_substituted_def TIMESTAMP_DELTA_def)

text \<open>
  C9, amended: around each file transform during apply (every list entry that names an
  existing file that is not a symbolic link), the file's access and modification
  timestamps are set to their values before the transform plus a fixed delta of
  \<open>10 ^ 9\<close> nanoseconds, which is one second (not about 31.7 years); during revert the
  same delta is subtracted from the timestamps of each reverted file.
\<close>

theorem timestamp_delta_one_second:
  "TIMESTAMP_DELTA = 1000000000
   \<and> (INDEX_HASH_DELIMITER \<notin> set p \<and> tree w (locate w p) = Some f \<and> \<not> is_symlink f \<longrightarrow>
        (\<exists>f'. tree (fst (snd (apply_entry re pairs use_cache p (w, idx)))) (locate w p) = Some f'
           \<and> st_atime_ns f' = st_atime_ns f + 1000000000
           \<and> st_mtime_ns f' = st_mtime_ns f + 1000000000))
   \<and> (tree w (locate w p) = Some f \<longrightarrow>
        (\<exists>f'. tree (snd (snd (revert_entries [p] (extracted, w)))) (locate w p) = Some f'
           \<and> st_atime_ns f' = st_atime_ns f - 1000000000
           \<and> st_mtime_ns f' = st_mtime_ns f - 1000000000))"
  using apply_entry_stamps [of p w f re pairs use_cache idx]
    revert_entry_stamps [of w p f extracted]
  by (simp add: TIMESTAMP_DELTA_def)

text \<open>
  The witness: apply rewrites \<open>config.txt\<close> with a cache and stamps it one second
  later; revert puts the original back from the extracted archive and stamps it one
  second earlier, which are the timestamps it had before apply.
\<close>

theorem timestamp_delta_one_second_witness:
  "tree (fst (snd (apply_entry literal_re [(str ''example.com'', str ''example.invalid'')] True
            (str ''config.txt'') (example_world\<lparr>cache := Some []\<rparr>, []))))
        (str ''config.txt'')
     = Some \<lparr>content = map of_nat (str ''Visit example.invalid today''),
             st_atime_ns = 1700000000000000000 + 1000000000,
             st_mtime_ns = 1600000000000000000 + 1000000000, is_symlink = False\<rparr>
   \<and> tree (snd (snd (revert_entries [str ''config.txt'']
            ([(str ''orig/config.txt'', map of_nat (str ''Visit example.com today'')),
              (str ''cache_index.list'', map of_nat (str ''config.txt|41e1be44'' @ [10]))],
             example_substituted))))
        (str ''config.txt'')
     = Some \<lparr>content = map of_nat (str ''Visit example.com today''),
             st_atime_ns = 1700000001000000000 - 1000000000,
             st_mtime_ns = 1600000001000000000 - 1000000000, is_symlink = False\<rparr>"
proof -
  let ?p = "str ''config.txt''"
  let ?w = "example_world\<lparr>cache := Some []\<rparr>"
  let ?d = "[(str ''orig/config.txt'', map of_nat (str ''Visit example.com today'')),
             (str ''cache_index.list'', map of_nat (str ''config.txt|41e1be44'' @ [10]))]"
  have a: "INDEX_HASH_DELIMITER \<notin> set ?p \<and> tree ?w (locate ?w ?p) = Some example_file
      \<and> \<not> is_symlink example_file"
    by (simp add: eval_defs)
  have b: "tree example_substituted (locate example_substituted ?p) =
      Some \<lparr>content = map of_nat (str ''Visit example.invalid today''),
         st_atime_ns = 1700000001000000000, st_mtime_ns = 1600000001000000000,
         is_symlink = False\<rparr>"
    by (simp add: eval_defs example_substituted_def)
  have c: "content (the (tree (fst (snd (apply_entry literal_re
        [(str ''example.com'', str ''example.invalid'')] True ?p (?w, [])))) ?p))
      = map of_nat (str ''Visit example.invalid today'')
    \<and> \<not> is_symlink (the (tree (fst (snd (apply_entry literal_re
        [(str ''example.com'', str ''example.invalid'')] True ?p (?w, [])))) ?p))"
    by (simp add: eval_defs)
  have d: "content (the (tree (snd (snd (revert_entries [?p] (?d, example_substituted)))) ?p))
      = map of_nat (str ''Visit example.com today'')
    \<and> \<not> is_symlink (the (tree (snd (snd (revert_entries [?p] (?d, example_substituted)))) ?p))"
    by (simp add: eval_defs revert_defs example_substituted_def)
  have l: "locate ?w ?p = ?p" "locate example_substituted ?p = ?p"
    by (simp_all add: eval_defs example_substituted_def)
  from conjunct1 [OF conjunct2 [OF timestamp_delta_one_second [of ?p ?w example_file literal_re
      "[(str ''example.com'', str ''example.invalid'')]" True "[]" "[]"]]] a
  obtain f1 where f1: "tree (fst (snd (apply_entry literal_re
        [(str ''example.com'', str ''example.invalid'')] True ?p (?w, [])))) ?p = Some f1"
      "st_atime_ns f1 = 1700000000000000000 + 1000000000"
      "st_mtime_ns f1 = 1600000000000000000 + 1000000000"
    unfolding l by (auto simp: example_file_def)
  from conjunct2 [OF conjunct2 [OF timestamp_delta_one_second [of ?p example_substituted
      "\<lparr>content = map of_nat (str ''Visit example.invalid today''),
         st_atime_ns = 1700000001000000000, st_mtime_ns = 1600000001000000000,
         is_symlink = False\<rparr>" literal_re "[]" True "[]" ?d]]] b
  obtain f2 where f2: "tree (snd (snd (revert_entries [?p] (?d, example_substituted)))) ?p
        = Some f2"
      "st_atime_ns f2 = 1700000001000000000 - 1000000000"
      "st_mtime_ns f2 = 1600000001000000000 - 1000000000"
    unfolding l by auto
  from c f1 have "f1 = \<lparr>content = map of_nat (str ''Visit example.invalid today''),
             st_atime_ns = 1700000000000000000 + 1000000000,
             st_mtime_ns = 1600000000000000000 + 1000000000, is_symlink = False\<rparr>"
    by (cases f1) simp
  moreover from d f2 have "f2 = \<lparr>content = map of_nat (str ''Visit example.com today''),
             st_atime_ns = 1700000001000000000 - 1000000000,
             st_mtime_ns = 1600000001000000000 - 1000000000, is_symlink = False\<rparr>"
    by (cases f2) simp
  ultimately show ?thesis using f1(1) f2(1) by simp
qed

section \<open>Cache Verifier\<close>

lemma validate_step_eq:
  "validate_step t (ok, files, lg) e =
     (case validate_index_entry e t files of (v, f1, l1) \<Rightarrow> (ok \<and> v, f1, lg @ l1))"
  by (auto simp: validate_step_def split: prod.splits)

lemma validate_fold_acc:
  "foldl (validate_step t) (ok, files, lg) es =
     (case foldl (validate_step t) (True, files, []) es of
        (ok', files', lg') \<Rightarrow> (ok \<and> ok', files', lg @ lg'))"
proof (induction es arbitrary: ok files lg)
  case Nil
  then show ?case by simp
next
  case (Cons e es)
  obtain v f1 l1 where v: "validate_index_entry e t files = (v, f1, l1)"
    by (cases "validate_index_entry e t files")
  obtain ok' files' lg' where r: "foldl (validate_step t) (True, f1, []) es = (ok', files', lg')"
    by (cases "foldl (validate_step t) (True, f1, []) es")
  have a: "foldl (validate_step t) (ok \<and> v, f1, lg @ l1) es
             = ((ok \<and> v) \<and> ok', files', (lg @ l1) @ lg')"
    using Cons.IH [of "ok \<and> v" f1 "lg @ l1"] r by simp
  have b: "foldl (validate_step t) (v, f1, l1) es = (v \<and> ok', files', l1 @ lg')"
    using Cons.IH [of v f1 l1] r by simp
  show ?case
    by (simp add: validate_step_eq v a b)
qed

text \<open>
  C7, as stated for every content index, fails: an index whose bytes are not UTF-8 is
  rejected before any entry is looked at. This index holds the malformed entry
  \<open>bogus\<close>, the valid entry of \<open>config.txt\<close> and one byte 255; the Verifier returns
  failure with the single record that the index is unreadable: the failure of \<open>bogus\<close>
  is not recorded and \<open>config.txt\<close> is not added to the set.
\<close>

theorem verifier_undecodable_counterexample:
  "validate_file_index
     (map of_nat (str ''bogus'' @ [10] @ str ''config.txt|41e1be44'' @ [10]) @ [255])
     example_substituted []
   = (False, [], [ErrIndexUnreadable])"
  by (simp add: validate_file_index_def str_simps)

text \<open>
  C7, amended: for every content index that decodes as UTF-8, the Cache Verifier
  examines all index entries even after one fails. When the index is the entries
  \<open>pre\<close>, then an entry \<open>bad\<close> that is rejected, then the entries \<open>post\<close>, the result is
  failure, and the set of index files and the logged records are those of the scan of
  \<open>pre\<close>, the record of \<open>bad\<close>, and a full scan of \<open>post\<close> that goes on from there: every
  entry after the failure is still examined, its failure recorded or its path added to
  the set. A content index that does not decode is rejected at once, with one record
  and no entry examined.
\<close>

theorem verifier_scans_whole_index:
  "(utf8_decode index_file = None \<longrightarrow>
      validate_file_index index_file t files = (False, files, [ErrIndexUnreadable]))
   \<and> (utf8_decode index_file = Some text \<and> splitlines text = pre @ bad # post
       \<and> foldl (validate_step t) (True, files, []) pre = (ok1, files1, lg1)
       \<and> validate_index_entry bad t files1 = (False, files1', recs)
       \<and> foldl (validate_step t) (True, files1', []) post = (ok2, files2, lg2) \<longrightarrow>
      validate_file_index index_file t files = (False, files2, lg1 @ recs @ lg2))"
  by (simp add: validate_file_index_def validate_step_eq validate_fold_acc [of t False])

theorem verifier_scans_whole_index_witness:
  "validate_file_index
     (map of_nat (str ''bogus'' @ [10] @ str ''config.txt|41e1be44'' @ [10] @ str ''x|y'' @ [10]))
     example_substituted []
   = (False, [str ''config.txt''],
      [ErrCouldNotSplit (str ''bogus''), ErrNotCRC32 (str ''x'')])
   \<and> validate_file_index [255] example_substituted [] = (False, [], [ErrIndexUnreadable])"
proof -
  let ?text = "str ''bogus'' @ [10] @ str ''config.txt|41e1be44'' @ [10] @ str ''x|y'' @ [10]"
  let ?t = "example_substituted"
  have 0: "utf8_decode [255] = None"
    by simp
  have 1: "utf8_decode (map of_nat ?text) = Some ?text"
    by (simp add: str_simps)
  have 2: "splitlines ?text = [] @ str ''bogus'' # [str ''config.txt|41e1be44'', str ''x|y'']"
    by (simp add: str_simps splitlines_def is_linebreak_def)
  have 3: "foldl (validate_step ?t) (True, [], []) [] = (True, [], [])"
    by simp
  have 4: "validate_index_entry (str ''bogus'') ?t [] = (False, [], [ErrCouldNotSplit (str ''bogus'')])"
    by (simp add: eval_defs revert_defs)
  have 5: "foldl (validate_step ?t) (True, [], []) [str ''config.txt|41e1be44'', str ''x|y'']
             = (False, [str ''config.txt''], [ErrNotCRC32 (str ''x'')])"
    by (simp add: eval_defs revert_defs example_substituted_def)
  from verifier_scans_whole_index [of "map of_nat ?text" ?t "[]" ?text "[]" "str ''bogus''"
      "[str ''config.txt|41e1be44'', str ''x|y'']" True "[]" "[]" "[]"
      "[ErrCouldNotSplit (str ''bogus'')]" False "[str ''config.txt'']" "[ErrNotCRC32 (str ''x'')]"]
    1 2 3 4 5
  have a: "validate_file_index (map of_nat ?text) ?t [] =
      (False, [str ''config.txt''], [ErrCouldNotSplit (str ''bogus''), ErrNotCRC32 (str ''x'')])"
    by simp
  from verifier_scans_whole_index [of "[255]" ?t "[]"] 0
  have b: "validate_file_index [255] ?t [] = (False, [], [ErrIndexUnreadable])"
    by simp
  from a b show ?thesis by simp
qed

section \<open>Revert Engine: the archive after a revert\<close>

lemma validate_entry_inv:
  assumes "validate_index_entry e t files = (v, files', recs)"
    and "\<forall>p \<in> set files. tree t (locate t p) \<noteq> None"
  shows "(v \<longrightarrow> recs = []) \<and> (\<forall>p \<in> set files'. tree t (locate t p) \<noteq> None)"
  using assms
  by (auto simp: validate_index_entry_def split: list.splits if_splits option.splits)

lemma validate_fold_inv:
  assumes "foldl (validate_step t) (ok, files, lg) es = (ok', files', lg')"
    and "ok \<longrightarrow> lg = []" and "\<forall>p \<in> set files. tree t (locate t p) \<noteq> None"
  shows "(ok' \<longrightarrow> lg' = []) \<and> (\<forall>p \<in> set files'. tree t (locate t p) \<noteq> None)"
  using assms
proof (induction es arbitrary: ok files lg)
  case Nil
  then show ?case by simp
next
  case (Cons e es)
  obtain v f1 l1 where v: "validate_index_entry e t files = (v, f1, l1)"
    by (cases "validate_index_entry e t files")
  from validate_entry_inv [OF v Cons.prems(3)]
  have i: "v \<longrightarrow> l1 = []" "\<forall>p \<in> set f1. tree t (locate t p) \<noteq> None"
    by simp_all
  from Cons.prems(1) v
  have f: "foldl (validate_step t) (ok \<and> v, f1, lg @ l1) es = (ok', files', lg')"
    by (simp add: validate_step_eq)
  from Cons.prems(2) i(1) have "ok \<and> v \<longrightarrow> lg @ l1 = []" by simp
  from Cons.IH [OF f this i(2)] show ?case .
qed

lemma validate_file_index_valid:
  assumes "validate_file_index index_file t [] = (True, files, recs)"
  shows "recs = [] \<and> (\<forall>p \<in> set files. tree t (locate t p) \<noteq> None)"
proof (cases "utf8_decode index_file")
  case None
  with assms show ?thesis by (simp add: validate_file_index_def)
next
  case (Some index_content)
  with assms
  have "foldl (validate_step t) (True, [], []) (splitlines index_content) = (True, files, recs)"
    by (simp add: validate_file_index_def)
  from validate_fold_inv [OF this] show ?thesis by simp
qed

lemma update_timestamp_replace:
  assumes "update_timestamp (locate w p) False (replace_orig p d) w = ((e, d1), w1)"
    and "tree w (locate w p) \<noteq> None"
  shows "cache w1 = cache w \<and> log w1 = log w \<and> locate w1 = locate w
     \<and> (\<forall>q. tree w q \<noteq> None \<longrightarrow> tree w1 q \<noteq> None)
     \<and> (e = None \<longrightarrow> d1 = filter (\<lambda>m. fst m \<noteq> orig_member_name p) d)"
  using assms
  by (auto simp: update_timestamp_def replace_orig_def utime_def add_log_def Let_def
      split: option.splits prod.splits)

lemma revert_entries_ok:
  "revert_entries files (d, w) = (None, d', w') \<Longrightarrow>
   \<forall>p \<in> set files. tree w (locate w p) \<noteq> None \<Longrightarrow>
     d' = filter (\<lambda>m. fst m \<notin> orig_member_name ` set files) d
     \<and> cache w' = cache w \<and> log w' = log w"
proof (induction files arbitrary: d w)
  case Nil
  then show ?case by simp
next
  case (Cons p rest)
  obtain e d1 w1 where
    u: "update_timestamp (locate w p) False (replace_orig p d) w = ((e, d1), w1)"
    by (cases "update_timestamp (locate w p) False (replace_orig p d) w") auto
  with Cons.prems(1) have e: "e = None" and r: "revert_entries rest (d1, w1) = (None, d', w')"
    by (cases e; simp)+
  from Cons.prems(2) have h: "tree w (locate w p) \<noteq> None" by simp
  from update_timestamp_replace [OF u h] e
  have d1: "d1 = filter (\<lambda>m. fst m \<noteq> orig_member_name p) d" and c1: "cache w1 = cache w"
    and l1: "log w1 = log w" and lo: "locate w1 = locate w"
    and k: "\<forall>q. tree w q \<noteq> None \<longrightarrow> tree w1 q \<noteq> None"
    by auto
  from Cons.prems(2) lo k have "\<forall>p \<in> set rest. tree w1 (locate w1 p) \<noteq> None" by simp
  from Cons.IH [OF r this] d1 c1 l1 show ?case by (auto intro: filter_cong)
qed

lemma unused_names:
  "filter is_orig_file (map fst (filter (\<lambda>m. fst m \<notin> S) d))
     = filter (\<lambda>name. is_orig_file name \<and> name \<notin> S) (map fst d)"
  by (induction d) auto

text \<open>
  C8: after a revert in which every replacement completed (the call returns without
  error), the cache archive is deleted if and only if no file of the extracted \<open>orig\<close>
  directory is left unreferenced by the content index; if there is such a file the
  archive is kept as it was, and the revert logs one warning for each such file,
  followed by the warning that the cache is not removed. In the other case it logs
  nothing. The orders in which Python iterates the set and lists the directory are
  arbitrary.
\<close>

theorem archive_removed_iff_no_unused:
  assumes "fst (revert_substitution set_order rglob_order w) = None"
    and "cache w = Some members"
    and "map_of (extract_tar_file members) INDEX_LIST_FILENAME = Some index_file"
    and "validate_file_index index_file w [] = (valid, cache_index_files, records)"
    and "\<forall>xs. set (set_order xs) = set xs" and "\<forall>xs. set (rglob_order xs) = set xs"
  shows "cache (snd (revert_substitution set_order rglob_order w)) =
     (if \<exists>name \<in> set (map fst (extract_tar_file members)).
           is_orig_file name \<and> name \<notin> orig_member_name ` set cache_index_files
      then Some members else None)
   \<and> log (snd (revert_substitution set_order rglob_order w)) = log w @
     (if \<exists>name \<in> set (map fst (extract_tar_file members)).
           is_orig_file name \<and> name \<notin> orig_member_name ` set cache_index_files
      then map WarnUnusedFile
             (rglob_order (filter (\<lambda>name. is_orig_file name
                  \<and> name \<notin> orig_member_name ` set cache_index_files)
                (map fst (extract_tar_file members))))
           @ [WarnCacheNotRemoved]
      else [])"
proof -
  let ?S = "orig_member_name ` set cache_index_files"
  let ?us = "filter (\<lambda>name. is_orig_file name \<and> name \<notin> ?S) (map fst (extract_tar_file members))"
  from assms(1-4) have valid: valid and te: "tree_exists w"
    by (auto simp: revert_substitution_def Let_def split: if_splits)
  from validate_file_index_valid [OF assms(4) [unfolded valid [THEN eqTrueI]]]
  have recs: "records = []" and ex: "\<forall>p \<in> set cache_index_files. tree w (locate w p) \<noteq> None"
    by simp_all
  obtain e d' w' where
    r: "revert_entries (set_order cache_index_files) (extract_tar_file members, add_log records w)
          = (e, d', w')"
    by (cases "revert_entries (set_order cache_index_files)
        (extract_tar_file members, add_log records w)")
  with assms(1-4) valid te have e: "e = None"
    by (cases e) (auto simp: revert_substitution_def Let_def)
  from ex assms(5) have "\<forall>p \<in> set (set_order cache_index_files).
      tree (add_log records w) (locate (add_log records w) p) \<noteq> None"
    by (simp add: add_log_def)
  from revert_entries_ok [OF r [unfolded e] this] assms(5)
  have d': "d' = filter (\<lambda>m. fst m \<notin> ?S) (extract_tar_file members)"
    and c: "cache w' = Some members" and l: "log w' = log w"
    using assms(2) recs by (auto simp: add_log_def)
  have u: "filter is_orig_file (map fst d') = ?us"
    unfolding d' by (rule unused_names)
  have n: "(rglob_order ?us \<noteq> []) =
      (\<exists>name \<in> set (map fst (extract_tar_file members)). is_orig_file name \<and> name \<notin> ?S)"
  proof -
    have "(rglob_order ?us \<noteq> []) = (set (rglob_order ?us) \<noteq> {})" by simp
    also have "\<dots> = (set ?us \<noteq> {})" using assms(6) by simp
    also have "\<dots> = (\<exists>name \<in> set (map fst (extract_tar_file members)).
        is_orig_file name \<and> name \<notin> ?S)"
      by auto
    finally show ?thesis .
  qed
  have "revert_substitution set_order rglob_order w =
     (if rglob_order ?us \<noteq> []
      then (None, add_log (map WarnUnusedFile (rglob_order ?us) @ [WarnCacheNotRemoved]) w')
      else (None, w'\<lparr>cache := None\<rparr>))"
    using assms(2-4) valid te r e u by (simp add: revert_substitution_def Let_def)
  with n c l show ?thesis
    by (simp add: add_log_def)
qed

theorem archive_removed_iff_no_unused_witness:
  "fst (revert_substitution rev rev example_substituted) = None
   \<and> cache (snd (revert_substitution rev rev example_substituted)) = None
   \<and> log (snd (revert_substitution rev rev example_substituted)) = []
   \<and> fst (revert_substitution rev rev example_with_unused) = None
   \<and> cache (snd (revert_substitution rev rev example_with_unused)) = cache example_with_unused
   \<and> cache example_with_unused \<noteq> None
   \<and> log (snd (revert_substitution rev rev example_with_unused))
       = [WarnUnusedFile (str ''orig/stale.txt''), WarnCacheNotRemoved]"
proof -
  let ?idx = "map of_nat (str ''config.txt|41e1be44'' @ [10]) :: bytes"
  have o: "\<forall>xs :: pystr list. set (rev xs) = set xs"
    by simp
  have a1: "fst (revert_substitution rev rev example_substituted) = None"
    by (simp add: example_revert)
  have a2: "cache example_substituted =
      Some [(str ''orig/config.txt'', map of_nat (str ''Visit example.com today'')),
            (str ''cache_index.list'', ?idx)]"
    by (simp add: example_substituted_def)
  have a3: "map_of (extract_tar_file
        [(str ''orig/config.txt'', map of_nat (str ''Visit example.com today'')),
         (str ''cache_index.list'', ?idx)]) INDEX_LIST_FILENAME = Some ?idx"
    by (simp add: eval_defs revert_defs)
  have a4: "validate_file_index ?idx example_substituted []
      = (True, [str ''config.txt''], [])"
    by (simp add: eval_defs revert_defs example_substituted_def)
  have b1: "fst (revert_substitution rev rev example_with_unused) = None"
    by (simp add: example_revert_unused)
  have b2: "cache example_with_unused =
      Some [(str ''orig/config.txt'', map of_nat (str ''Visit example.com today'')),
            (str ''orig/stale.txt'', map of_nat (str ''old'')),
            (str ''cache_index.list'', ?idx)]"
    by (simp add: example_with_unused_def)
  have b3: "map_of (extract_tar_file
        [(str ''orig/config.txt'', map of_nat (str ''Visit example.com today'')),
         (str ''orig/stale.txt'', map of_nat (str ''old'')),
         (str ''cache_index.list'', ?idx)]) INDEX_LIST_FILENAME = Some ?idx"
    by (simp add: eval_defs revert_defs)
  have b4: "validate_file_index ?idx example_with_unused []
      = (True, [str ''config.txt''], [])"
    by (simp add: eval_defs revert_defs example_substituted_def example_with_unused_def)
  have l: "log example_substituted = []" "log example_with_unused = []"
    by (simp_all add: example_substituted_def example_with_unused_def)
  from archive_removed_iff_no_unused [OF a1 a2 a3 a4 o o]
  have a: "cache (snd (revert_substitution rev rev example_substituted)) = None
      \<and> log (snd (revert_substitution rev rev example_substituted)) = []"
    by (simp add: eval_defs revert_defs l)
  from archive_removed_iff_no_unused [OF b1 b2 b3 b4 o o]
  have b: "cache (snd (revert_substitution rev rev example_with_unused))
        = cache example_with_unused
      \<and> log (snd (revert_substitution rev rev example_with_unused))
        = [WarnUnusedFile (str ''orig/stale.txt''), WarnCacheNotRemoved]"
    by (simp add: eval_defs revert_defs b2 l)
  from a1 a b1 b b2 show ?thesis by simp
qed

section \<open>Cache Writer: a list entry with the hash delimiter\<close>

lemma apply_entries_append:
  "apply_entries re pairs uc (xs @ ys) st =
     (case apply_entries re pairs uc xs st of
        (Some e, st') \<Rightarrow> (Some e, st')
      | (None, st') \<Rightarrow> apply_entries re pairs uc ys st')"
  by (induction xs arbitrary: st) (auto split: prod.splits option.splits)

lemma apply_entry_delimiter:
  "INDEX_HASH_DELIMITER \<in> set p \<Longrightarrow>
     apply_entry re pairs uc p (w, idx) =
       (Some (ValueError p), if uc then w\<lparr>cache := None\<rparr> else w, idx)"
  by (simp add: apply_entry_def)

lemma substitute_path_other:
  "q \<noteq> p \<Longrightarrow> tree (snd (substitute_path re p pairs w)) q = tree w q"
  by (auto simp: substitute_path_def Let_def split: option.splits sum.splits prod.splits)

lemma substitute_path_locate:
  "locate (snd (substitute_path re p pairs w)) = locate w"
  by (auto simp: substitute_path_def Let_def split: option.splits sum.splits prod.splits)

lemma update_timestamp_other:
  assumes "\<And>w. tree (snd (body w)) q = tree w q" and "q \<noteq> p"
  shows "tree (snd (update_timestamp p b body w)) q = tree w q"
proof (cases "tree w p")
  case None
  then show ?thesis using assms(1) [of "add_log [WarnCannotStat p] w"]
    by (simp add: update_timestamp_def add_log_def)
next
  case (Some stats)
  obtain r w' where b: "body w = (r, w')" by (cases "body w")
  with assms(1) [of w] have "tree w' q = tree w q" by simp
  with Some b assms(2) show ?thesis
    by (auto simp: update_timestamp_def utime_def add_log_def Let_def split: option.splits)
qed

lemma update_timestamp_locate:
  assumes "\<And>w. locate (snd (body w)) = locate w"
  shows "locate (snd (update_timestamp p b body w)) = locate w"
proof (cases "tree w p")
  case None
  then show ?thesis using assms [of "add_log [WarnCannotStat p] w"]
    by (simp add: update_timestamp_def add_log_def)
next
  case (Some stats)
  obtain r w' where b: "body w = (r, w')" by (cases "body w")
  with assms [of w] have "locate w' = locate w" by simp
  with Some b show ?thesis
    by (auto simp: update_timestamp_def utime_def add_log_def Let_def split: option.splits)
qed

lemma apply_entry_other:
  "locate (fst (snd (apply_entry re pairs uc p (w, idx)))) = locate w
   \<and> (q \<noteq> locate w p \<longrightarrow> tree (fst (snd (apply_entry re pairs uc p (w, idx)))) q = tree w q)"
proof -
  let ?path = "locate w p"
  have u: "q \<noteq> ?path \<Longrightarrow>
      tree (snd (update_timestamp ?path True (substitute_path re ?path pairs) w)) q = tree w q"
    by (rule update_timestamp_other) (simp_all add: substitute_path_other)
  have v: "locate (snd (update_timestamp ?path True (substitute_path re ?path pairs) w))
      = locate w"
    by (rule update_timestamp_locate) (simp add: substitute_path_locate)
  obtain r w1 where c: "update_timestamp ?path True (substitute_path re ?path pairs) w = (r, w1)"
    by (cases "update_timestamp ?path True (substitute_path re ?path pairs) w")
  with u v have "q \<noteq> ?path \<Longrightarrow> tree w1 q = tree w q" and "locate w1 = locate w" by simp_all
  with c show ?thesis
    by (auto simp: apply_entry_def add_log_def tar_addfile_def Let_def
        split: option.splits sum.splits prod.splits)
qed

lemma apply_entries_other:
  "q \<notin> locate w ` set xs \<Longrightarrow>
     tree (fst (snd (apply_entries re pairs uc xs (w, idx)))) q = tree w q"
proof (induction xs arbitrary: w idx)
  case Nil
  then show ?case by simp
next
  case (Cons p rest)
  obtain e w1 idx1 where s: "apply_entry re pairs uc p (w, idx) = (e, w1, idx1)"
    by (cases "apply_entry re pairs uc p (w, idx)")
  from Cons.prems have "q \<noteq> locate w p" by auto
  with apply_entry_other [of re pairs uc p w idx q] s
  have t: "tree w1 q = tree w q" and l: "locate w1 = locate w" by simp_all
  show ?case
  proof (cases e)
    case None
    from Cons.prems l have "q \<notin> locate w1 ` set rest" by simp
    from Cons.IH [OF this, of idx1] None s t show ?thesis by simp
  next
    case (Some err)
    with s t show ?thesis by simp
  qed
qed

text \<open>
  C3, as stated, fails: with the list \<open>config.txt\<close>, \<open>a|b\<close> the apply aborts on the
  second entry, and by then \<open>config.txt\<close> has been rewritten: it holds
  \<open>Visit example.invalid today\<close> where it held \<open>Visit example.com today\<close>.
\<close>

theorem delimiter_abort_counterexample:
  "fst (apply_substitution literal_re (Some example_rules)
          (Some (str ''config.txt'' @ [10] @ str ''a|b'')) (Some (str ''cache.tar.gz''))
          example_world)
     = Some (ValueError (str ''a|b''))
   \<and> map_option content (tree example_world (str ''config.txt''))
       = Some (map of_nat (str ''Visit example.com today''))
   \<and> map_option content
       (tree (snd (apply_substitution literal_re (Some example_rules)
          (Some (str ''config.txt'' @ [10] @ str ''a|b'')) (Some (str ''cache.tar.gz''))
          example_world))
          (str ''config.txt''))
       = Some (map of_nat (str ''Visit example.invalid today''))"
  unfolding example_apply_aborted
  by (simp add: example_aborted_def example_substituted_def example_world_def example_file_def)

text \<open>
  C3, amended: if an entry of the substitution list contains the hash delimiter, the
  apply operation fails, at the latest when the loop reaches the first such entry. That
  entry and the entries after it are not processed: every file of the tree that none of
  the entries before it resolves to is as it was. The files that the entries before it
  resolve to, under whatever spelling of their paths, have been processed by then and
  stay as processed.
\<close>

theorem delimiter_abort_leaves_later_files:
  assumes "list_entries files_text = pre @ bad # post"
    and "INDEX_HASH_DELIMITER \<in> set bad"
  shows "fst (apply_substitution re regex_file (Some files_text) domainsub_cache w) \<noteq> None
     \<and> (\<forall>q. q \<notin> locate w ` set pre \<longrightarrow>
          tree (snd (apply_substitution re regex_file (Some files_text) domainsub_cache w)) q
            = tree w q)"
proof -
  have loop: "fst (apply_entries re pairs uc (pre @ bad # post) (w0, [])) \<noteq> None
      \<and> (\<forall>q. q \<notin> locate w ` set pre \<longrightarrow>
            tree (fst (snd (apply_entries re pairs uc (pre @ bad # post) (w0, [])))) q = tree w q)"
    if w0: "locate w0 = locate w" "tree w0 = tree w" for pairs uc w0
  proof -
    obtain e w1 idx where p: "apply_entries re pairs uc pre (w0, []) = (e, w1, idx)"
      by (cases "apply_entries re pairs uc pre (w0, [])")
    have t: "\<And>q. q \<notin> locate w ` set pre \<Longrightarrow> tree w1 q = tree w q"
      using apply_entries_other [of _ w0 pre re pairs uc "[]"] p w0 by auto
    show ?thesis
    proof (cases e)
      case None
      with assms p t show ?thesis
        by (simp add: apply_entries_append apply_entry_delimiter)
    next
      case (Some err)
      with p t show ?thesis
        by (simp add: apply_entries_append)
    qed
  qed
  show ?thesis
  proof (cases "tree_exists w \<and> \<not> (domainsub_cache \<noteq> None \<and> cache w \<noteq> None)")
    case False
    then show ?thesis
      by (auto simp: apply_substitution_def split: option.splits)
  next
    case True
    show ?thesis
    proof (cases regex_file)
      case None
      with True show ?thesis by (simp add: apply_substitution_def)
    next
      case (Some regex_text)
      show ?thesis
      proof (cases "regex_pairs re (DomainRegexList regex_text)")
        case (Inl err)
        with True Some show ?thesis by (simp add: apply_substitution_def)
      next
        case (Inr pairs)
        show ?thesis
        proof (cases domainsub_cache)
          case None
          from loop [of w pairs False] True Some Inr None assms(1) show ?thesis
            by (auto simp: apply_substitution_def split: prod.splits)
        next
          case (Some cache_path)
          obtain oe created where o: "tarfile_open_w (drop 1 (path_suffix cache_path)) = (oe, created)"
            by (cases "tarfile_open_w (drop 1 (path_suffix cache_path))")
          show ?thesis
          proof (cases oe)
            case None
            from loop [of "w\<lparr>cache := Some []\<rparr>" pairs True]
            have "fst (apply_entries re pairs True (pre @ bad # post) (w\<lparr>cache := Some []\<rparr>, []))
                \<noteq> None
              \<and> (\<forall>q. q \<notin> locate w ` set pre \<longrightarrow>
                  tree (fst (snd (apply_entries re pairs True (pre @ bad # post)
                     (w\<lparr>cache := Some []\<rparr>, [])))) q = tree w q)"
              by simp
            with True \<open>regex_file = Some regex_text\<close> Inr Some o None assms(1) show ?thesis
              by (auto simp: apply_substitution_def split: prod.splits option.splits)
          next
            case (Some err)
            with True \<open>regex_file = Some regex_text\<close> Inr \<open>domainsub_cache = Some cache_path\<close> o
            show ?thesis
              by (simp add: apply_substitution_def)
          qed
        qed
      qed
    qed
  qed
qed

text \<open>
  The witness: the list \<open>./config.txt\<close>, \<open>a|b\<close>, \<open>notes.txt\<close> on a tree with the two
  files. The apply fails and \<open>notes.txt\<close> is as it was.
\<close>

theorem delimiter_abort_leaves_later_files_witness:
  "fst (apply_substitution literal_re (Some example_rules)
          (Some (str ''./config.txt'' @ [10] @ str ''a|b'' @ [10] @ str ''notes.txt''))
          (Some (str ''cache.tar.gz'')) example_two_files) \<noteq> None
   \<and> tree (snd (apply_substitution literal_re (Some example_rules)
          (Some (str ''./config.txt'' @ [10] @ str ''a|b'' @ [10] @ str ''notes.txt''))
          (Some (str ''cache.tar.gz'')) example_two_files))
        (str ''notes.txt'') = Some example_file"
proof -
  have 4: "list_entries (str ''./config.txt'' @ [10] @ str ''a|b'' @ [10] @ str ''notes.txt'')
             = [str ''./config.txt''] @ str ''a|b'' # [str ''notes.txt'']"
    by (simp add: eval_defs)
  have 5: "INDEX_HASH_DELIMITER \<in> set (str ''a|b'')"
    by (simp add: eval_defs)
  have 6: "str ''notes.txt'' \<notin> locate example_two_files ` set [str ''./config.txt'']"
    by (simp add: eval_defs example_two_files_def)
  have 7: "tree example_two_files (str ''notes.txt'') = Some example_file"
    by (simp add: example_two_files_def str_simps)
  from delimiter_abort_leaves_later_files [OF 4 5, of literal_re "Some example_rules"
      "Some (str ''cache.tar.gz'')" example_two_files] 6 7
  show ?thesis by simp
qed

text \<open>
  C4: when the loop of apply reaches a list entry that contains the hash delimiter (the
  archive, if a cache destination was given, having been opened for writing and the
  entries before this one having been processed without error), apply raises the
  \<open>ValueError\<close> that names this path; the cache archive, if a cache destination was
  given, is deleted; and the tree is left as the entries before had made it: the files
  already rewritten are not rolled back.
\<close>

theorem delimiter_abort_deletes_cache:
  assumes "tree_exists w"
    and "regex_pairs re (DomainRegexList regex_text) = Inr pairs"
    and "list_entries files_text = pre @ bad # post"
    and "INDEX_HASH_DELIMITER \<in> set bad"
    and "case domainsub_cache of None \<Rightarrow> True
         | Some cache_path \<Rightarrow> cache w = None
             \<and> fst (tarfile_open_w (drop 1 (path_suffix cache_path))) = None"
    and "apply_entries re pairs (domainsub_cache \<noteq> None) pre
           (if domainsub_cache \<noteq> None then w\<lparr>cache := Some []\<rparr> else w, []) = (None, w1, idx)"
  shows "apply_substitution re (Some regex_text) (Some files_text) domainsub_cache w =
           (Some (ValueError bad), if domainsub_cache \<noteq> None then w1\<lparr>cache := None\<rparr> else w1)"
proof (cases domainsub_cache)
  case None
  with assms show ?thesis
    by (simp add: apply_substitution_def apply_entries_append apply_entry_delimiter)
next
  case (Some cache_path)
  with assms(5) obtain created where
    "tarfile_open_w (drop 1 (path_suffix cache_path)) = (None, created)" and "cache w = None"
    by (cases "tarfile_open_w (drop 1 (path_suffix cache_path))") auto
  with assms Some show ?thesis
    by (simp add: apply_substitution_def apply_entries_append apply_entry_delimiter)
qed

theorem delimiter_abort_deletes_cache_witness:
  "apply_substitution literal_re (Some example_rules)
      (Some (str ''config.txt'' @ [10] @ str ''a|b'')) (Some (str ''cache.tar.gz'')) example_world
     = (Some (ValueError (str ''a|b'')), example_aborted)
   \<and> cache example_aborted = None
   \<and> map_option content (tree example_aborted (str ''config.txt''))
       = Some (map of_nat (str ''Visit example.invalid today''))"
proof -
  let ?w1 = "example_substituted
      \<lparr>cache := Some [(str ''orig/config.txt'', map of_nat (str ''Visit example.com today''))]\<rparr>"
  let ?c = "Some (str ''cache.tar.gz'') :: pystr option"
  have 1: "tree_exists example_world"
    by (simp add: example_world_def)
  have 3: "regex_pairs literal_re (DomainRegexList example_rules)
             = Inr [(str ''example.com'', str ''example.invalid'')]"
    by (simp add: eval_defs)
  have 4: "list_entries (str ''config.txt'' @ [10] @ str ''a|b'')
             = [str ''config.txt''] @ str ''a|b'' # []"
    by (simp add: eval_defs)
  have 5: "INDEX_HASH_DELIMITER \<in> set (str ''a|b'')"
    by (simp add: eval_defs)
  have 2: "case ?c of None \<Rightarrow> True
         | Some cache_path \<Rightarrow> cache example_world = None
             \<and> fst (tarfile_open_w (drop 1 (path_suffix cache_path))) = None"
    by (simp add: eval_defs)
  have 6: "apply_entries literal_re [(str ''example.com'', str ''example.invalid'')] (?c \<noteq> None)
             [str ''config.txt'']
             (if ?c \<noteq> None then example_world\<lparr>cache := Some []\<rparr> else example_world, [])
           = (None, ?w1, map of_nat (str ''config.txt|41e1be44'' @ [10]))"
    by (simp add: eval_defs example_substituted_def)
  from delimiter_abort_deletes_cache [OF 1 3 4 5 2 6]
  show ?thesis by (simp add: example_aborted_def example_substituted_def)
qed

section \<open>Facts about \<open>splitlines\<close>, the codecs, hexadecimal numbers and CRC-32\<close>

lemma split_acc_plain:
  "\<not> is_linebreak c \<Longrightarrow> split_acc cur (c # cs) = split_acc (cur @ [c]) cs"
  by (cases cs) (auto simp: is_linebreak_def)

lemma split_acc_newline: "split_acc cur (10 # cs) = cur # split_acc [] cs"
  by (cases cs) (auto simp: is_linebreak_def)

lemma split_acc_line:
  "\<forall>c\<in>set l. \<not> is_linebreak c \<Longrightarrow>
     split_acc cur (l @ 10 # rest) = (cur @ l) # split_acc [] rest"
  by (induction l arbitrary: cur) (simp_all add: split_acc_newline split_acc_plain)

lemma splitlines_lines:
  "\<forall>l\<in>set ls. \<forall>c\<in>set l. \<not> is_linebreak c \<Longrightarrow>
     splitlines (concat (map (\<lambda>l. l @ [10]) ls)) = ls"
  unfolding splitlines_def
  by (induction ls) (simp_all add: split_acc_line)

lemma split_acc_no_linebreak:
  "l \<in> set (split_acc cur s) \<Longrightarrow> \<forall>c\<in>set cur. \<not> is_linebreak c \<Longrightarrow> c \<in> set l
     \<Longrightarrow> \<not> is_linebreak c"
  by (induction cur s rule: split_acc.induct) (auto split: if_splits)

lemma splitlines_no_linebreak:
  "l \<in> set (splitlines s) \<Longrightarrow> c \<in> set l \<Longrightarrow> \<not> is_linebreak c"
  unfolding splitlines_def using split_acc_no_linebreak [of l "[]" s c] by simp

lemma unat_byte: "n < 256 \<Longrightarrow> unat (of_nat n :: 8 word) = n"
  by (simp add: unat_of_nat)

lemma utf8_encode_append:
  "utf8_encode (a @ b) =
     (case utf8_encode a of
        None \<Rightarrow> None
      | Some x \<Rightarrow> (case utf8_encode b of None \<Rightarrow> None | Some y \<Rightarrow> Some (x @ y)))"
  by (induction a) (auto split: option.splits)

lemma shift6: "(q::nat) div 64 * 64 + q mod 64 = q" by simp

lemma utf8_decode_cp1:
  assumes "c < 128"
  shows "utf8_decode (of_nat c # rest) = map_option (\<lambda>r. c # r) (utf8_decode rest)"
proof -
  have "unat (of_nat c :: 8 word) = c" using assms by (simp add: unat_byte)
  then show ?thesis using assms by simp
qed

lemma utf8_decode_cp2:
  assumes "128 \<le> c" "c < 2048"
  shows "utf8_decode (of_nat (192 + c div 64) # of_nat (128 + c mod 64) # rest)
     = map_option (\<lambda>r. c # r) (utf8_decode rest)"
proof -
  have d: "2 \<le> c div 64" "c div 64 < 32" using assms by auto
  have b0: "unat (of_nat (192 + c div 64) :: 8 word) = 192 + c div 64"
    by (rule unat_byte) (use d in simp)
  have b1: "unat (of_nat (128 + c mod 64) :: 8 word) = 128 + c mod 64"
    by (rule unat_byte) simp
  have v: "c div 64 * 64 + c mod 64 = c" by simp
  show ?thesis
    using d by (simp add: b0 b1 is_cont_def v del: of_nat_add)
qed

lemma utf8_decode_cp3:
  assumes "2048 \<le> c" "c < 65536" "\<not> (55296 \<le> c \<and> c < 57344)"
  shows "utf8_decode (of_nat (224 + c div 4096) # of_nat (128 + c div 64 mod 64)
            # of_nat (128 + c mod 64) # rest)
     = map_option (\<lambda>r. c # r) (utf8_decode rest)"
proof -
  define q1 where "q1 = c div 64"
  define q2 where "q2 = q1 div 64"
  have e1: "c div 64 = q1" by (simp add: q1_def)
  have e2: "c div 4096 = q2" by (simp add: q2_def q1_def div_mult2_eq)
  have d: "c div 4096 < 16" using assms by (simp add: less_mult_imp_div_less)
  have b0: "unat (of_nat (224 + c div 4096) :: 8 word) = 224 + c div 4096"
    by (rule unat_byte) (use d in simp)
  have b1: "unat (of_nat (128 + c div 64 mod 64) :: 8 word) = 128 + c div 64 mod 64"
    by (rule unat_byte) simp
  have b2: "unat (of_nat (128 + c mod 64) :: 8 word) = 128 + c mod 64"
    by (rule unat_byte) simp
  have s0: "q1 * 64 + c mod 64 = c" unfolding q1_def by (rule shift6)
  have s1: "q2 * 64 + q1 mod 64 = q1" unfolding q2_def by (rule shift6)
  have v: "c div 4096 * 4096 + c div 64 mod 64 * 64 + c mod 64 = c"
    unfolding e1 e2 using s0 s1 by linarith
  show ?thesis
    using d assms by (simp add: b0 b1 b2 is_cont_def v Let_def del: of_nat_add)
qed

lemma utf8_decode_cp4:
  assumes "65536 \<le> c" "c < 1114112"
  shows "utf8_decode (of_nat (240 + c div 262144) # of_nat (128 + c div 4096 mod 64)
            # of_nat (128 + c div 64 mod 64) # of_nat (128 + c mod 64) # rest)
     = map_option (\<lambda>r. c # r) (utf8_decode rest)"
proof -
  define q1 where "q1 = c div 64"
  define q2 where "q2 = q1 div 64"
  define q3 where "q3 = q2 div 64"
  have e1: "c div 64 = q1" by (simp add: q1_def)
  have e2: "c div 4096 = q2" by (simp add: q2_def q1_def div_mult2_eq)
  have e3: "c div 262144 = q3" by (simp add: q3_def q2_def q1_def div_mult2_eq)
  have d: "c div 262144 < 5" using assms by (simp add: less_mult_imp_div_less)
  have b0: "unat (of_nat (240 + c div 262144) :: 8 word) = 240 + c div 262144"
    by (rule unat_byte) (use d in simp)
  have b1: "unat (of_nat (128 + c div 4096 mod 64) :: 8 word) = 128 + c div 4096 mod 64"
    by (rule unat_byte) simp
  have b2: "unat (of_nat (128 + c div 64 mod 64) :: 8 word) = 128 + c div 64 mod 64"
    by (rule unat_byte) simp
  have b3: "unat (of_nat (128 + c mod 64) :: 8 word) = 128 + c mod 64"
    by (rule unat_byte) simp
  have s0: "q1 * 64 + c mod 64 = c" unfolding q1_def by (rule shift6)
  have s1: "q2 * 64 + q1 mod 64 = q1" unfolding q2_def by (rule shift6)
  have s2: "q3 * 64 + q2 mod 64 = q2" unfolding q3_def by (rule shift6)
  have v: "c div 262144 * 262144 + c div 4096 mod 64 * 4096 + c div 64 mod 64 * 64 + c mod 64 = c"
    unfolding e1 e2 e3 using s0 s1 s2 by linarith
  show ?thesis
    using d assms by (simp add: b0 b1 b2 b3 is_cont_def v Let_def del: of_nat_add)
qed

lemma utf8_decode_cp:
  assumes "utf8_encode_cp c = Some bs"
  shows "utf8_decode (bs @ rest) = map_option (\<lambda>r. c # r) (utf8_decode rest)"
proof -
  consider "c < 128" | "128 \<le> c" "c < 2048"
    | "2048 \<le> c" "c < 65536" "\<not> (55296 \<le> c \<and> c < 57344)"
    | "65536 \<le> c" "c < 1114112"
    | "55296 \<le> c \<and> c < 57344" | "1114112 \<le> c"
    by linarith
  then show ?thesis
  proof cases
    case 1
    with assms have "bs = [of_nat c]" by (simp add: utf8_encode_cp_def del: of_nat_add)
    then show ?thesis by (simp only: append.simps utf8_decode_cp1 [OF 1])
  next
    case 2
    with assms have "bs = [of_nat (192 + c div 64), of_nat (128 + c mod 64)]"
      by (simp add: utf8_encode_cp_def del: of_nat_add)
    then show ?thesis by (simp only: append.simps utf8_decode_cp2 [OF 2])
  next
    case 3
    with assms have "bs = [of_nat (224 + c div 4096), of_nat (128 + c div 64 mod 64),
        of_nat (128 + c mod 64)]"
      by (simp add: utf8_encode_cp_def del: of_nat_add)
    then show ?thesis by (simp only: append.simps utf8_decode_cp3 [OF 3])
  next
    case 4
    with assms have "bs = [of_nat (240 + c div 262144), of_nat (128 + c div 4096 mod 64),
        of_nat (128 + c div 64 mod 64), of_nat (128 + c mod 64)]"
      by (simp add: utf8_encode_cp_def del: of_nat_add)
    then show ?thesis by (simp only: append.simps utf8_decode_cp4 [OF 4])
  next
    case 5
    with assms show ?thesis by (simp add: utf8_encode_cp_def)
  next
    case 6
    with assms show ?thesis by (simp add: utf8_encode_cp_def)
  qed
qed

lemma utf8_roundtrip: "utf8_encode s = Some bs \<Longrightarrow> utf8_decode bs = Some s"
proof (induction s arbitrary: bs)
  case Nil
  then show ?case by simp
next
  case (Cons c cs)
  then obtain b r where b: "utf8_encode_cp c = Some b" and r: "utf8_encode cs = Some r"
    and bs: "bs = b @ r"
    by (auto split: option.splits)
  from Cons.IH [OF r] utf8_decode_cp [OF b, of r] bs show ?case by simp
qed

lemma hex_val_digit: "d < 16 \<Longrightarrow> hex_val (hex_digit d) = Some d"
  by (auto simp: hex_val_def hex_digit_def)

lemma hex_digit_props:
  assumes "d < 16"
  shows "is_alnum (hex_digit d)" "hex_digit d < 128" "\<not> is_linebreak (hex_digit d)"
    "hex_digit d \<noteq> 124" "hex_digit d \<noteq> 120" "hex_digit d \<noteq> 88" "hex_digit d \<noteq> 10"
  using assms by (auto simp: hex_digit_def is_alnum_def is_linebreak_def)

lemma shift4: "(q::nat) div 16 * 16 + q mod 16 = q" by simp

lemma hex8_digits:
  "hex8 w = [hex_digit (unat w div 268435456 mod 16), hex_digit (unat w div 16777216 mod 16),
     hex_digit (unat w div 1048576 mod 16), hex_digit (unat w div 65536 mod 16),
     hex_digit (unat w div 4096 mod 16), hex_digit (unat w div 256 mod 16),
     hex_digit (unat w div 16 mod 16), hex_digit (unat w mod 16)]"
  by (simp add: hex8_def)

lemma horner8:
  fixes n :: nat
  assumes "n < 4294967296"
  shows "268435456 * (n div 268435456 mod 16) + 16777216 * (n div 16777216 mod 16)
      + 1048576 * (n div 1048576 mod 16) + 65536 * (n div 65536 mod 16)
      + 4096 * (n div 4096 mod 16) + 256 * (n div 256 mod 16) + 16 * (n div 16 mod 16)
      + n mod 16 = n"
proof -
  define q1 where "q1 = n div 16"
  define q2 where "q2 = q1 div 16"
  define q3 where "q3 = q2 div 16"
  define q4 where "q4 = q3 div 16"
  define q5 where "q5 = q4 div 16"
  define q6 where "q6 = q5 div 16"
  define q7 where "q7 = q6 div 16"
  have e1: "n div 16 = q1" by (simp add: q1_def)
  have e2: "n div 256 = q2" by (simp add: q2_def q1_def div_mult2_eq)
  have e3: "n div 4096 = q3" by (simp add: q3_def q2_def q1_def div_mult2_eq)
  have e4: "n div 65536 = q4" by (simp add: q4_def q3_def q2_def q1_def div_mult2_eq)
  have e5: "n div 1048576 = q5" by (simp add: q5_def q4_def q3_def q2_def q1_def div_mult2_eq)
  have e6: "n div 16777216 = q6"
    by (simp add: q6_def q5_def q4_def q3_def q2_def q1_def div_mult2_eq)
  have e7: "n div 268435456 = q7"
    by (simp add: q7_def q6_def q5_def q4_def q3_def q2_def q1_def div_mult2_eq)
  have "q7 < 16" unfolding e7 [symmetric] using assms by (simp add: less_mult_imp_div_less)
  then have m7: "q7 mod 16 = q7" by simp
  have s0: "q1 * 16 + n mod 16 = n" unfolding q1_def by (rule shift4)
  have s1: "q2 * 16 + q1 mod 16 = q1" unfolding q2_def by (rule shift4)
  have s2: "q3 * 16 + q2 mod 16 = q2" unfolding q3_def by (rule shift4)
  have s3: "q4 * 16 + q3 mod 16 = q3" unfolding q4_def by (rule shift4)
  have s4: "q5 * 16 + q4 mod 16 = q4" unfolding q5_def by (rule shift4)
  have s5: "q6 * 16 + q5 mod 16 = q5" unfolding q6_def by (rule shift4)
  have s6: "q7 * 16 + q6 mod 16 = q6" unfolding q7_def by (rule shift4)
  show ?thesis
    unfolding e1 e2 e3 e4 e5 e6 e7 m7 using s0 s1 s2 s3 s4 s5 s6 by linarith
qed

lemma parse_hex_hex8: "parse_hex 0 (hex8 w) = Some (unat w)"
proof -
  have b: "unat w < 4294967296" using unsigned_less [of w, where 'a = nat] by simp
  show ?thesis
    unfolding hex8_digits
    by (simp add: hex_val_digit) (rule horner8 [OF b])
qed

lemma hex8_chars:
  "c \<in> set (hex8 w) \<Longrightarrow> is_alnum c \<and> c < 128 \<and> \<not> is_linebreak c \<and> c \<noteq> 124 \<and> c \<noteq> 10"
  unfolding hex8_digits using hex_digit_props [of "unat w div 268435456 mod 16"]
    hex_digit_props [of "unat w div 16777216 mod 16"] hex_digit_props [of "unat w div 1048576 mod 16"]
    hex_digit_props [of "unat w div 65536 mod 16"] hex_digit_props [of "unat w div 4096 mod 16"]
    hex_digit_props [of "unat w div 256 mod 16"] hex_digit_props [of "unat w div 16 mod 16"]
    hex_digit_props [of "unat w mod 16"]
  by auto

lemma hex8_length: "length (hex8 w) = 8"
  by (simp add: hex8_def)

lemma hex8_nonempty: "hex8 w \<noteq> []"
  by (simp add: hex8_def)

lemma crc32_regex_match_hex8: "crc32_regex_match (hex8 w)"
proof -
  have "last (hex8 w) \<noteq> 10" using hex8_chars [of "last (hex8 w)" w] hex8_nonempty [of w] by auto
  then show ?thesis
    using hex8_chars [of _ w] by (auto simp: crc32_regex_match_def hex8_length list_all_iff)
qed

lemma int_base16_hex8: "int_base16 (hex8 w) = Some (unat w)"
proof -
  have l: "last (hex8 w) \<noteq> 10" using hex8_chars [of "last (hex8 w)" w] hex8_nonempty [of w] by auto
  have x: "take 2 (hex8 w) \<noteq> str ''0x''" "take 2 (hex8 w) \<noteq> str ''0X''"
    unfolding hex8_digits using hex_digit_props(5,6) [of "unat w div 16777216 mod 16"]
    by (auto simp: str_def)
  show ?thesis
    using l x hex8_nonempty [of w] by (simp add: int_base16_def Let_def parse_hex_hex8)
qed

lemma crc_shift_inj: "crc_shift a = crc_shift b \<Longrightarrow> a = b"
proof -
  assume e: "crc_shift a = crc_shift b"
  have top: "\<And>c. bit (crc_shift c) 31 = bit c 0"
    by (auto simp: crc_shift_def bit_simps dest: bit_imp_le_length)
  have low: "\<And>c n. n < 31 \<Longrightarrow>
      bit (crc_shift c) n = (bit c (Suc n) \<noteq> (bit c 0 \<and> bit (0xEDB88320 :: 32 word) n))"
    by (auto simp: crc_shift_def bit_simps)
  have b0: "bit a 0 = bit b 0" using top [of a] top [of b] e by simp
  have "bit a n = bit b n" for n
  proof (cases n)
    case 0
    with b0 show ?thesis by simp
  next
    case (Suc m)
    show ?thesis
    proof (cases "m < 31")
      case True
      from low [OF True, of a] low [OF True, of b] e b0 show ?thesis unfolding Suc by auto
    next
      case False
      then have "\<not> bit a n" "\<not> bit b n" unfolding Suc by (auto dest: bit_imp_le_length)
      then show ?thesis by simp
    qed
  qed
  then show ?thesis by (rule bit_eqI)
qed

lemma crc_shift_pow_inj: "(crc_shift ^^ n) a = (crc_shift ^^ n) b \<Longrightarrow> a = b"
  by (induction n) (auto dest: crc_shift_inj)

lemma xor_cancel_left: "(c :: 32 word) XOR x = c XOR y \<Longrightarrow> x = y"
proof -
  assume "c XOR x = c XOR y"
  then have "c XOR (c XOR x) = c XOR (c XOR y)" by simp
  then show ?thesis by (simp add: xor.assoc [symmetric])
qed

lemma xor_cancel_right: "(a :: 32 word) XOR x = b XOR x \<Longrightarrow> a = b"
  using xor_cancel_left [of x a b] by (simp add: xor.commute)

lemma ucast_byte_inj: "(ucast (x :: 8 word) :: 32 word) = ucast y \<Longrightarrow> x = y"
proof -
  assume e: "(ucast x :: 32 word) = ucast y"
  have "bit x n = bit y n" for n
  proof -
    have "bit (ucast x :: 32 word) n = bit (ucast y :: 32 word) n" using e by simp
    then show ?thesis by (auto simp: bit_simps dest: bit_imp_le_length)
  qed
  then show ?thesis by (rule bit_eqI)
qed

lemma crc_byte_inj_state: "crc_byte a x = crc_byte b x \<Longrightarrow> a = b"
  unfolding crc_byte_def by (blast dest: crc_shift_pow_inj xor_cancel_right)

lemma crc_byte_inj_byte: "crc_byte c x = crc_byte c y \<Longrightarrow> x = y"
  unfolding crc_byte_def by (blast dest: crc_shift_pow_inj xor_cancel_left ucast_byte_inj)

lemma foldl_crc_inj: "foldl crc_byte a bs = foldl crc_byte b bs \<Longrightarrow> a = b"
  by (induction bs arbitrary: a b) (auto dest: crc_byte_inj_state)

lemma crc32_single_byte:
  assumes "crc32 (pre @ x # post) = crc32 (pre @ y # post)"
  shows "x = y"
proof -
  from assms have "foldl crc_byte (crc_byte (foldl crc_byte 0xFFFFFFFF pre) x) post
      = foldl crc_byte (crc_byte (foldl crc_byte 0xFFFFFFFF pre) y) post"
    by (auto simp: crc32_def dest: xor_cancel_right)
  then show ?thesis by (blast dest: foldl_crc_inj crc_byte_inj_byte)
qed

section \<open>Revert Engine: a failed validation\<close>

lemma validate_fold_false:
  "\<not> fst (foldl (validate_step t) (False, files, lg) es)"
  using validate_fold_acc [of t False files lg es] by (simp split: prod.splits)

lemma validate_fold_fails:
  assumes "e \<in> set es" and "\<And>files. \<not> fst (validate_index_entry e t files)"
  shows "\<not> fst (foldl (validate_step t) st es)"
  using assms(1)
proof (induction es arbitrary: st)
  case Nil
  then show ?case by simp
next
  case (Cons a es)
  obtain ok files lg where st: "st = (ok, files, lg)" by (cases st)
  show ?case
  proof (cases "a = e")
    case True
    obtain v f1 l1 where v: "validate_index_entry e t files = (v, f1, l1)"
      by (cases "validate_index_entry e t files")
    with assms(2) [of files] have "\<not> v" by simp
    then show ?thesis
      using validate_fold_false [of t f1 "lg @ l1" es] by (simp add: st True validate_step_eq v)
  next
    case False
    with Cons show ?thesis by simp
  qed
qed

lemma substitute_step:
  assumes "tree w path = Some f"
    and "update_timestamp path True (substitute_path re path pairs) w = (res, w1)"
  shows "locate w1 = locate w \<and> tree_exists w1 = tree_exists w \<and> cache w1 = cache w
     \<and> (\<forall>q. q \<noteq> path \<longrightarrow> tree w1 q = tree w q)
     \<and> (case res of
          Inl e \<Rightarrow> True
        | Inr None \<Rightarrow>
            log w1 = log w \<and>
            tree w1 path = Some (f\<lparr>st_atime_ns := st_atime_ns f + TIMESTAMP_DELTA,
                                   st_mtime_ns := st_mtime_ns f + TIMESTAMP_DELTA\<rparr>)
        | Inr (Some (crc, orig)) \<Rightarrow>
            log w1 = log w \<and> orig = content f \<and>
            (\<exists>enc. crc = crc32 enc \<and>
               tree w1 path = Some (f\<lparr>content := enc,
                                      st_atime_ns := st_atime_ns f + TIMESTAMP_DELTA,
                                      st_mtime_ns := st_mtime_ns f + TIMESTAMP_DELTA\<rparr>)))"
  using assms
  by (auto simp: update_timestamp_def substitute_path_def utime_def Let_def
      split: option.splits sum.splits prod.splits if_splits)


lemma index_text_snoc:
  "index_text (L @ [(r, c)]) = index_text L @ index_line r c"
  by (simp add: index_text_def)

lemma apply_entry_written:
  assumes a: "apply_entry re pairs True r (w, idx) = (None, w', idx')"
    and r: "\<forall>ch \<in> set r. \<not> is_linebreak ch"
    and inv: "written w0 w idx L"
  shows "\<exists>L'. written w0 w' idx' L'"
proof -
  let ?path = "locate w r"
  from a have d: "INDEX_HASH_DELIMITER \<notin> set r"
    by (auto simp: apply_entry_def split: if_splits)
  show ?thesis
  proof (cases "tree w ?path")
    case None
    with a d have "w' = add_log [WarnSkipMissing ?path] w" "idx' = idx"
      by (simp_all add: apply_entry_def)
    with inv have "written w0 w' idx' L" by (simp add: written_def add_log_def)
    then show ?thesis ..
  next
    case (Some f)
    show ?thesis
    proof (cases "is_symlink f")
      case True
      with a d Some have "w' = add_log [WarnSkipSymlink ?path] w" "idx' = idx"
        by (simp_all add: apply_entry_def)
      with inv have "written w0 w' idx' L" by (simp add: written_def add_log_def)
      then show ?thesis ..
    next
      case False
      obtain res w1 where
        u: "update_timestamp ?path True (substitute_path re ?path pairs) w = (res, w1)"
        by (cases "update_timestamp ?path True (substitute_path re ?path pairs) w")
      note s = substitute_step [OF Some u]
      from s have k: "locate w1 = locate w" "tree_exists w1 = tree_exists w" "cache w1 = cache w"
        and o: "\<And>q. q \<noteq> ?path \<Longrightarrow> tree w1 q = tree w q"
        by simp_all
      show ?thesis
      proof (cases res)
        case (Inl e)
        with a d Some False u show ?thesis by (simp add: apply_entry_def)
      next
        case (Inr x)
        show ?thesis
        proof (cases x)
          case None
          with a d Some False u Inr
          have w': "w' = add_log [InfoNoSubstitutions r] w1" "idx' = idx"
            by (simp_all add: apply_entry_def)
          from s Inr None have c: "map_option content (tree w1 ?path) = Some (content f)"
            by simp
          have ceq: "map_option content (tree w1 q) = map_option content (tree w q)" for q
            using o [of q] c \<open>tree w ?path = Some f\<close> by (cases "q = ?path") simp_all
          have "map_option content (tree w1 q) = map_option content (tree w0 q)
              \<or> (\<exists>(r', c') \<in> set L. locate w0 r' = q
                  \<and> (\<exists>g. tree w1 q = Some g \<and> crc32 (content g) = c'))" for q
          proof (cases "map_option content (tree w q) = map_option content (tree w0 q)")
            case True
            with ceq [of q] show ?thesis by simp
          next
            case False
            with inv obtain r' c' g where m: "(r', c') \<in> set L" "locate w0 r' = q"
              "tree w q = Some g" "crc32 (content g) = c'"
              unfolding written_def by blast
            from ceq [of q] m(3) obtain g' where "tree w1 q = Some g'" "content g' = content g"
              by (cases "tree w1 q") auto
            with m show ?thesis by auto
          qed
          then have "written w0 w' idx' L"
            using inv k unfolding written_def w' add_log_def by simp
          then show ?thesis ..
        next
          case (Some p)
          obtain crc orig where p: "p = (crc, orig)" by (cases p)
          from a d \<open>tree w ?path = Some f\<close> False u Inr Some p
          obtain line_bytes where
            e: "utf8_encode (index_line r crc) = Some line_bytes"
            and w': "w' = tar_addfile (orig_member_name r) orig w1" "idx' = idx @ line_bytes"
            by (auto simp: apply_entry_def split: option.splits)
          from s Inr Some p obtain f1 where
            f1: "tree w1 ?path = Some f1" "crc32 (content f1) = crc"
            by auto
          have i: "utf8_encode (index_text (L @ [(r, crc)])) = Some idx'"
            using inv e w'(2) by (simp add: index_text_snoc utf8_encode_append written_def)
          have c: "cache w' \<noteq> None"
            using inv k by (auto simp: w' tar_addfile_def written_def split: option.splits)
          have t: "tree w' = tree w1" "locate w' = locate w0" "tree_exists w' = tree_exists w0"
            using inv k by (simp_all add: w' tar_addfile_def written_def)
          have "map_option content (tree w1 q) = map_option content (tree w0 q)
              \<or> (\<exists>(r', c') \<in> set (L @ [(r, crc)]). locate w0 r' = q
                  \<and> (\<exists>g. tree w1 q = Some g \<and> crc32 (content g) = c'))" for q
          proof (cases "q = ?path")
            case True
            with f1 inv show ?thesis by (auto simp: written_def)
          next
            case False
            with o [of q] inv show ?thesis by (fastforce simp: written_def)
          qed
          with i c t r d inv have "written w0 w' idx' (L @ [(r, crc)])"
            unfolding written_def by auto
          then show ?thesis ..
        qed
      qed
    qed
  qed
qed

lemma apply_entries_written:
  assumes "apply_entries re pairs True es (w, idx) = (None, w', idx')"
    and "\<forall>r \<in> set es. \<forall>ch \<in> set r. \<not> is_linebreak ch"
    and "written w0 w idx L"
  shows "\<exists>L'. written w0 w' idx' L'"
  using assms
proof (induction es arbitrary: w idx L)
  case Nil
  then show ?case by auto
next
  case (Cons r es)
  obtain e w1 idx1 where s: "apply_entry re pairs True r (w, idx) = (e, w1, idx1)"
    by (cases "apply_entry re pairs True r (w, idx)")
  with Cons.prems(1) have e: "e = None"
    and rest: "apply_entries re pairs True es (w1, idx1) = (None, w', idx')"
    by (cases e; simp)+
  from Cons.prems(2) have r: "\<forall>ch \<in> set r. \<not> is_linebreak ch"
    and es: "\<forall>r \<in> set es. \<forall>ch \<in> set r. \<not> is_linebreak ch"
    by simp_all
  from apply_entry_written [OF s [unfolded e] r Cons.prems(3)]
  obtain L1 where "written w0 w1 idx1 L1" ..
  from Cons.IH [OF rest es this] show ?case .
qed


lemma apply_written:
  assumes "apply_substitution re regex_file files_file (Some cache_path) w0 = (None, w1)"
  shows "\<exists>L members idx. written w0 w1 idx L \<and> tree_exists w1
     \<and> cache w1 = Some (members @ [(INDEX_LIST_FILENAME, idx)])"
proof -
  from assms obtain regex_text files_text where
    te: "tree_exists w0" and c0: "cache w0 = None"
    and rf: "regex_file = Some regex_text" and ff: "files_file = Some files_text"
    by (auto simp: apply_substitution_def split: option.splits if_splits)
  from assms te c0 rf ff obtain pairs where
    rp: "regex_pairs re (DomainRegexList regex_text) = Inr pairs"
    by (cases "regex_pairs re (DomainRegexList regex_text)")
      (auto simp: apply_substitution_def)
  obtain oe created where o: "tarfile_open_w (drop 1 (path_suffix cache_path)) = (oe, created)"
    by (cases "tarfile_open_w (drop 1 (path_suffix cache_path))")
  from assms te c0 rf ff rp o have oe: "oe = None"
    by (cases oe) (auto simp: apply_substitution_def)
  obtain e' w' idx where a': "apply_entries re pairs True (list_entries files_text)
      (w0\<lparr>cache := Some []\<rparr>, []) = (e', w', idx)"
    by (cases "apply_entries re pairs True (list_entries files_text)
      (w0\<lparr>cache := Some []\<rparr>, [])")
  from assms te c0 rf ff rp o oe a' have e': "e' = None"
    and w1': "w1 = tar_addfile INDEX_LIST_FILENAME idx w'"
    by (cases e'; simp add: apply_substitution_def)+
  note a = a' [unfolded e']
  have e: "\<forall>r \<in> set (list_entries files_text). \<forall>ch \<in> set r. \<not> is_linebreak ch"
    by (auto simp: list_entries_def dest: splitlines_no_linebreak)
  have i: "written w0 (w0\<lparr>cache := Some []\<rparr>) [] []"
    by (simp add: written_def index_text_def)
  from apply_entries_written [OF a e i] obtain L where L: "written w0 w' idx L" ..
  then obtain members where m: "cache w' = Some members"
    by (auto simp: written_def)
  have "written w0 w1 idx L" using L m by (simp add: w1' written_def tar_addfile_def)
  moreover have "tree_exists w1" using L te by (simp add: w1' written_def tar_addfile_def)
  moreover have "cache w1 = Some (members @ [(INDEX_LIST_FILENAME, idx)])"
    using m by (simp add: w1' tar_addfile_def)
  ultimately show ?thesis by blast
qed

lemma extract_last:
  "map_of (extract_tar_file (members @ [(name, data)])) name = Some data"
proof -
  have "map_of (filter (\<lambda>e. fst e \<noteq> name) xs) name = None" for xs :: "tar_member list"
    by (induction xs) auto
  then show ?thesis
    by (simp add: extract_tar_file_def extract_member_def map_add_def)
qed

lemma index_text_lines:
  "index_text L = concat (map (\<lambda>l. l @ [10])
     (map (\<lambda>(r, c). r @ INDEX_HASH_DELIMITER # hex8 c) L))"
  by (induction L) (auto simp: index_text_def index_line_def)

lemma index_lines:
  assumes "\<forall>(r, c) \<in> set L. \<forall>ch \<in> set r. \<not> is_linebreak ch"
  shows "splitlines (index_text L) = map (\<lambda>(r, c). r @ INDEX_HASH_DELIMITER # hex8 c) L"
  unfolding index_text_lines
proof (rule splitlines_lines)
  show "\<forall>l \<in> set (map (\<lambda>(r, c). r @ INDEX_HASH_DELIMITER # hex8 c) L).
      \<forall>ch \<in> set l. \<not> is_linebreak ch"
    using assms hex8_chars
    by (auto simp: INDEX_HASH_DELIMITER_def is_linebreak_def)
qed

lemma mismatch_entry:
  assumes "INDEX_HASH_DELIMITER \<notin> set r" and "tree t (locate t r) = Some f"
    and "crc32 (content f) \<noteq> c"
  shows "\<not> fst (validate_index_entry (r @ INDEX_HASH_DELIMITER # hex8 c) t files)"
  using assms
  by (simp add: validate_index_entry_def split1_append hex8_nonempty crc32_regex_match_hex8
      int_base16_hex8 word_unat_eq_iff [symmetric])

lemma revert_invalid:
  assumes "cache w = Some members" and "tree_exists w"
    and "map_of (extract_tar_file members) INDEX_LIST_FILENAME = Some index_file"
    and "\<not> fst (validate_file_index index_file w [])"
  shows "revert_substitution set_order rglob_order w =
     (Some KeyError, add_log (snd (snd (validate_file_index index_file w []))) w)"
proof -
  obtain valid files records where
    v: "validate_file_index index_file w [] = (valid, files, records)"
    by (cases "validate_file_index index_file w []")
  with assms show ?thesis by (simp add: revert_substitution_def Let_def)
qed


lemma bad_entry:
  assumes "case split1 INDEX_HASH_DELIMITER entry of
             [relative_path, file_hash] \<Rightarrow>
               relative_path = [] \<or> file_hash = [] \<or> \<not> crc32_regex_match file_hash
               \<or> (case tree t (locate t relative_path) of
                     None \<Rightarrow> True
                   | Some f \<Rightarrow> int_base16 file_hash \<noteq> Some (unat (crc32 (content f))))
           | _ \<Rightarrow> True"
  shows "\<not> fst (validate_index_entry entry t files)"
  using assms
  by (auto simp: validate_index_entry_def split: list.splits option.splits)

lemma valid_adds:
  "validate_index_entry e t files = (True, files', recs) \<Longrightarrow>
   split1 INDEX_HASH_DELIMITER e = [rel, h] \<Longrightarrow> rel \<in> set files'"
  by (auto simp: validate_index_entry_def split: if_splits option.splits)

lemma entry_mono:
  "validate_index_entry e t files = (v, files', recs) \<Longrightarrow> set files \<subseteq> set files'"
  by (auto simp: validate_index_entry_def split: list.splits if_splits option.splits)

lemma fold_mono:
  "foldl (validate_step t) (ok, files, lg) es = (ok', files', lg') \<Longrightarrow> set files \<subseteq> set files'"
proof (induction es arbitrary: ok files lg)
  case Nil
  then show ?case by simp
next
  case (Cons e es)
  obtain v f1 l1 where v: "validate_index_entry e t files = (v, f1, l1)"
    by (cases "validate_index_entry e t files")
  from Cons.prems v
  have "foldl (validate_step t) (ok \<and> v, f1, lg @ l1) es = (ok', files', lg')"
    by (simp add: validate_step_eq)
  from Cons.IH [OF this] entry_mono [OF v] show ?case by simp
qed

lemma dup_rejected:
  "split1 INDEX_HASH_DELIMITER e = [rel, h] \<Longrightarrow> rel \<in> set files \<Longrightarrow>
     \<not> fst (validate_index_entry e t files)"
  by (auto simp: validate_index_entry_def split: option.splits)

lemma validate_fold_stays_false:
  "\<not> fst st \<Longrightarrow> \<not> fst (foldl (validate_step t) st es)"
  using validate_fold_false [of t "fst (snd st)" "snd (snd st)" es] by (cases st) simp

lemma duplicate_fails:
  assumes "split1 INDEX_HASH_DELIMITER e1 = [rel, h1]"
    and "split1 INDEX_HASH_DELIMITER e2 = [rel, h2]"
  shows "\<not> fst (foldl (validate_step t) st (es1 @ e1 # es2 @ e2 # es3))"
proof -
  obtain ok1 f1 l1 where a: "foldl (validate_step t) st es1 = (ok1, f1, l1)"
    by (cases "foldl (validate_step t) st es1")
  obtain v1 f2 r1 where b: "validate_index_entry e1 t f1 = (v1, f2, r1)"
    by (cases "validate_index_entry e1 t f1")
  obtain ok3 f3 l3 where c: "foldl (validate_step t) (ok1 \<and> v1, f2, l1 @ r1) es2 = (ok3, f3, l3)"
    by (cases "foldl (validate_step t) (ok1 \<and> v1, f2, l1 @ r1) es2")
  obtain v4 f4 r4 where d: "validate_index_entry e2 t f3 = (v4, f4, r4)"
    by (cases "validate_index_entry e2 t f3")
  have "\<not> (ok3 \<and> v4)"
  proof (cases v1)
    case True
    from valid_adds [OF b [unfolded True [THEN eqTrueI]] assms(1)] fold_mono [OF c]
    have "rel \<in> set f3" by auto
    from dup_rejected [OF assms(2) this, of t] d show ?thesis by simp
  next
    case False
    with validate_fold_stays_false [of "(ok1 \<and> v1, f2, l1 @ r1)" t es2] c
    show ?thesis by simp
  qed
  then have "\<not> fst (foldl (validate_step t) (ok3 \<and> v4, f4, l3 @ r4) es3)"
    by (intro validate_fold_stays_false) simp
  with a b c d show ?thesis by (simp add: validate_step_eq)
qed

text \<open>
  C2: whenever the validation of the Cache Verifier fails during revert,
  \<open>revert_substitution\<close> raises \<open>KeyError\<close> and leaves every file of the tree and the
  cache archive as they were. The validation fails when some line of the index is
  malformed (it has no delimiter, or an empty path or hash), when its hash is not eight
  alphanumeric characters or is not a hexadecimal number, when the file it names is
  missing, when the hash differs from the checksum of that file, and when two lines
  name the same path. In particular, after an apply with a cache archive that
  succeeded, if one byte of a file that the apply has rewritten is changed, the revert
  fails in this way, the tree (with the changed file) and the archive staying as they
  are.
\<close>

theorem revert_fails_atomically:
  "(cache w = Some members \<and> tree_exists w
      \<and> map_of (extract_tar_file members) INDEX_LIST_FILENAME = Some index_file
      \<and> \<not> fst (validate_file_index index_file w []) \<longrightarrow>
        fst (revert_substitution set_order rglob_order w) = Some KeyError
        \<and> tree (snd (revert_substitution set_order rglob_order w)) = tree w
        \<and> cache (snd (revert_substitution set_order rglob_order w)) = cache w)
   \<and> (utf8_decode index_file = Some index_content \<and> entry \<in> set (splitlines index_content)
       \<and> (case split1 INDEX_HASH_DELIMITER entry of
            [relative_path, file_hash] \<Rightarrow>
              relative_path = [] \<or> file_hash = [] \<or> \<not> crc32_regex_match file_hash
              \<or> (case tree w (locate w relative_path) of
                    None \<Rightarrow> True
                  | Some f \<Rightarrow> int_base16 file_hash \<noteq> Some (unat (crc32 (content f))))
          | _ \<Rightarrow> True) \<longrightarrow>
        \<not> fst (validate_file_index index_file w []))
   \<and> (utf8_decode index_file = Some index_content
       \<and> splitlines index_content = es1 @ e1 # es2 @ e2 # es3
       \<and> split1 INDEX_HASH_DELIMITER e1 = [path, hash1]
       \<and> split1 INDEX_HASH_DELIMITER e2 = [path, hash2] \<longrightarrow>
        \<not> fst (validate_file_index index_file w []))
   \<and> (apply_substitution re regex_file files_file (Some cache_path) w0 = (None, w1)
       \<and> tree w1 k = Some g \<and> map_option content (tree w0 k) \<noteq> Some (content g)
       \<and> content g = pre @ x # post \<and> content g' = pre @ y # post \<and> x \<noteq> y \<longrightarrow>
        fst (revert_substitution set_order rglob_order (w1\<lparr>tree := (tree w1)(k \<mapsto> g')\<rparr>))
          = Some KeyError
        \<and> tree (snd (revert_substitution set_order rglob_order
              (w1\<lparr>tree := (tree w1)(k \<mapsto> g')\<rparr>))) = (tree w1)(k \<mapsto> g')
        \<and> cache (snd (revert_substitution set_order rglob_order
              (w1\<lparr>tree := (tree w1)(k \<mapsto> g')\<rparr>))) = cache w1)"
proof (intro conjI impI; (elim conjE)?)
  assume "cache w = Some members" "tree_exists w"
    "map_of (extract_tar_file members) INDEX_LIST_FILENAME = Some index_file"
    "\<not> fst (validate_file_index index_file w [])"
  note r = revert_invalid [OF this, of set_order rglob_order]
  show "fst (revert_substitution set_order rglob_order w) = Some KeyError"
    "tree (snd (revert_substitution set_order rglob_order w)) = tree w"
    "cache (snd (revert_substitution set_order rglob_order w)) = cache w"
    unfolding r by (simp_all add: add_log_def)
next
  assume "utf8_decode index_file = Some index_content" "entry \<in> set (splitlines index_content)"
    and "case split1 INDEX_HASH_DELIMITER entry of
            [relative_path, file_hash] \<Rightarrow>
              relative_path = [] \<or> file_hash = [] \<or> \<not> crc32_regex_match file_hash
              \<or> (case tree w (locate w relative_path) of
                    None \<Rightarrow> True
                  | Some f \<Rightarrow> int_base16 file_hash \<noteq> Some (unat (crc32 (content f))))
          | _ \<Rightarrow> True"
  then show "\<not> fst (validate_file_index index_file w [])"
    using validate_fold_fails [where e = entry and es = "splitlines index_content" and t = w
        and st = "(True, [], [])"]
      bad_entry [where entry = entry and t = w]
    by (simp add: validate_file_index_def)
next
  assume "utf8_decode index_file = Some index_content"
    "splitlines index_content = es1 @ e1 # es2 @ e2 # es3"
    "split1 INDEX_HASH_DELIMITER e1 = [path, hash1]"
    "split1 INDEX_HASH_DELIMITER e2 = [path, hash2]"
  then show "\<not> fst (validate_file_index index_file w [])"
    using duplicate_fails [where ?e1.0 = e1 and ?e2.0 = e2 and rel = path and ?h1.0 = hash1
        and ?h2.0 = hash2 and t = w and st = "(True, [], [])" and ?es1.0 = es1 and ?es2.0 = es2
        and ?es3.0 = es3]
    by (simp add: validate_file_index_def)
next
  assume a: "apply_substitution re regex_file files_file (Some cache_path) w0 = (None, w1)"
    and g: "tree w1 k = Some g" "map_option content (tree w0 k) \<noteq> Some (content g)"
    and m: "content g = pre @ x # post" "content g' = pre @ y # post" "x \<noteq> y"
  let ?w = "w1\<lparr>tree := (tree w1)(k \<mapsto> g')\<rparr>"
  from apply_written [OF a] obtain L members idx where
    inv: "written w0 w1 idx L" and te: "tree_exists w1"
    and c: "cache w1 = Some (members @ [(INDEX_LIST_FILENAME, idx)])"
    by blast
  from inv have "map_option content (tree w1 k) = map_option content (tree w0 k)
      \<or> (\<exists>(r, c) \<in> set L. locate w0 r = k
            \<and> (\<exists>f. tree w1 k = Some f \<and> crc32 (content f) = c))"
    unfolding written_def by blast
  moreover from g have "map_option content (tree w1 k) \<noteq> map_option content (tree w0 k)"
    by (cases "tree w0 k") auto
  ultimately have "\<exists>(r, c) \<in> set L. locate w0 r = k
      \<and> (\<exists>f. tree w1 k = Some f \<and> crc32 (content f) = c)"
    by blast
  with g(1) have "\<exists>(r, c) \<in> set L. locate w0 r = k \<and> crc32 (content g) = c"
    by auto
  then obtain r c' where rc: "(r, c') \<in> set L" "locate w0 r = k"
    "crc32 (content g) = c'"
    by auto
  from inv rc(1) have nd: "INDEX_HASH_DELIMITER \<notin> set r"
    and nl: "\<forall>(r, c) \<in> set L. \<forall>ch \<in> set r. \<not> is_linebreak ch"
    unfolding written_def by auto
  from inv have enc: "utf8_encode (index_text L) = Some idx" and lo: "locate w1 = locate w0"
    unfolding written_def by simp_all
  have dec: "utf8_decode idx = Some (index_text L)"
    by (rule utf8_roundtrip [OF enc])
  have e: "r @ INDEX_HASH_DELIMITER # hex8 c' \<in> set (splitlines (index_text L))"
    unfolding index_lines [OF nl] using rc(1) by force
  have ne: "crc32 (content g') \<noteq> c'"
    using crc32_single_byte [of pre y post x] m rc(3) by auto
  have "\<not> fst (validate_index_entry (r @ INDEX_HASH_DELIMITER # hex8 c') ?w files)" for files
    by (rule mismatch_entry [OF nd _ ne]) (simp add: lo rc(2))
  from validate_fold_fails [OF e this]
  have v: "\<not> fst (validate_file_index idx ?w [])"
    by (simp add: validate_file_index_def dec)
  have "cache ?w = Some (members @ [(INDEX_LIST_FILENAME, idx)])" "tree_exists ?w"
    "map_of (extract_tar_file (members @ [(INDEX_LIST_FILENAME, idx)])) INDEX_LIST_FILENAME
       = Some idx"
    using c te by (simp_all add: extract_last)
  note r = revert_invalid [OF this v, of set_order rglob_order]
  show "fst (revert_substitution set_order rglob_order ?w) = Some KeyError"
    "tree (snd (revert_substitution set_order rglob_order ?w)) = (tree w1)(k \<mapsto> g')"
    "cache (snd (revert_substitution set_order rglob_order ?w)) = cache w1"
    unfolding r by (simp_all add: add_log_def)
qed

text \<open>
  The witness: a cache whose index holds the line \<open>bogus\<close>; an index that names
  \<open>config.txt\<close> twice; and the substituted example tree in which the first byte of
  \<open>config.txt\<close> was changed from \<open>V\<close> to \<open>v\<close>.
\<close>

theorem revert_fails_atomically_witness:
  "fst (revert_substitution rev rev example_corrupt) = Some KeyError
   \<and> tree (snd (revert_substitution rev rev example_corrupt)) = tree example_corrupt
   \<and> cache (snd (revert_substitution rev rev example_corrupt)) = cache example_corrupt
   \<and> \<not> fst (validate_file_index
         (map of_nat (str ''config.txt|41e1be44'' @ [10] @ str ''config.txt|41e1be44'' @ [10]))
         example_substituted [])
   \<and> fst (revert_substitution rev rev example_mutated) = Some KeyError
   \<and> tree (snd (revert_substitution rev rev example_mutated)) = tree example_mutated
   \<and> cache (snd (revert_substitution rev rev example_mutated)) = cache example_substituted"
proof -
  let ?bogus = "map of_nat (str ''bogus'' @ [10]) :: bytes"
  let ?dup = "map of_nat (str ''config.txt|41e1be44'' @ [10] @ str ''config.txt|41e1be44'' @ [10])
    :: bytes"
  let ?e = "str ''config.txt|41e1be44''"
  let ?g = "\<lparr>content = map of_nat (str ''Visit example.invalid today''),
         st_atime_ns = 1700000001000000000, st_mtime_ns = 1600000001000000000,
         is_symlink = False\<rparr>"
  let ?g' = "\<lparr>content = map of_nat (str ''visit example.invalid today''),
           st_atime_ns = 1700000002000000000, st_mtime_ns = 1700000002000000000,
           is_symlink = False\<rparr>"
  have a1: "cache example_corrupt =
      Some [(str ''orig/config.txt'', map of_nat (str ''Visit example.com today'')),
            (str ''cache_index.list'', ?bogus)]"
    and a2: "tree_exists example_corrupt"
    by (simp_all add: example_corrupt_def example_substituted_def)
  have a3: "map_of (extract_tar_file
        [(str ''orig/config.txt'', map of_nat (str ''Visit example.com today'')),
         (str ''cache_index.list'', ?bogus)]) INDEX_LIST_FILENAME = Some ?bogus"
    by (simp add: eval_defs revert_defs)
  have b1: "utf8_decode ?bogus = Some (str ''bogus'' @ [10])"
    by (simp add: str_simps)
  have b2: "str ''bogus'' \<in> set (splitlines (str ''bogus'' @ [10]))"
    by (simp add: str_simps splitlines_def is_linebreak_def)
  have b3: "case split1 INDEX_HASH_DELIMITER (str ''bogus'') of
            [relative_path, file_hash] \<Rightarrow>
              relative_path = [] \<or> file_hash = [] \<or> \<not> crc32_regex_match file_hash
              \<or> (case tree example_corrupt (locate example_corrupt relative_path) of
                    None \<Rightarrow> True
                  | Some f \<Rightarrow> int_base16 file_hash \<noteq> Some (unat (crc32 (content f))))
          | _ \<Rightarrow> True"
    by (simp add: str_simps split1_def INDEX_HASH_DELIMITER_def)
  have c1: "utf8_decode ?dup = Some (?e @ [10] @ ?e @ [10])"
    by (simp add: str_simps)
  have c2: "splitlines (?e @ [10] @ ?e @ [10]) = [] @ ?e # [] @ ?e # []"
    by (simp add: str_simps splitlines_def is_linebreak_def)
  have c3: "split1 INDEX_HASH_DELIMITER ?e = [str ''config.txt'', str ''41e1be44'']"
    by (simp add: str_simps split1_def INDEX_HASH_DELIMITER_def)
  have d1: "tree example_substituted (str ''config.txt'') = Some ?g"
    by (simp add: example_substituted_def)
  have d2: "map_option content (tree example_world (str ''config.txt'')) \<noteq> Some (content ?g)"
    by (simp add: example_world_def example_file_def str_simps)
  have d3: "content ?g = [] @ 86 # map of_nat (str ''isit example.invalid today'')"
    and d4: "content ?g' = [] @ 118 # map of_nat (str ''isit example.invalid today'')"
    and d5: "(86 :: byte) \<noteq> 118"
    by (simp_all add: str_simps)
  have m: "example_substituted\<lparr>tree := (tree example_substituted)(str ''config.txt'' \<mapsto> ?g')\<rparr>
      = example_mutated"
    by (simp add: example_mutated_def example_substituted_def)
  from revert_fails_atomically [where w = example_corrupt and index_file = ?bogus
      and index_content = "str ''bogus'' @ [10]" and entry = "str ''bogus''"
      and set_order = rev and rglob_order = rev, THEN conjunct2, THEN conjunct1] b1 b2 b3
  have v: "\<not> fst (validate_file_index ?bogus example_corrupt [])"
    by simp
  from revert_fails_atomically [where w = example_corrupt and index_file = ?bogus
      and members = "[(str ''orig/config.txt'', map of_nat (str ''Visit example.com today'')),
            (str ''cache_index.list'', ?bogus)]"
      and set_order = rev and rglob_order = rev, THEN conjunct1] a1 a2 a3 v
  have r1: "fst (revert_substitution rev rev example_corrupt) = Some KeyError
      \<and> tree (snd (revert_substitution rev rev example_corrupt)) = tree example_corrupt
      \<and> cache (snd (revert_substitution rev rev example_corrupt)) = cache example_corrupt"
    by simp
  from revert_fails_atomically [where w = example_substituted and index_file = ?dup
      and index_content = "?e @ [10] @ ?e @ [10]" and ?es1.0 = "[]" and ?e1.0 = ?e
      and ?es2.0 = "[]" and ?e2.0 = ?e and ?es3.0 = "[]" and path = "str ''config.txt''"
      and ?hash1.0 = "str ''41e1be44''" and ?hash2.0 = "str ''41e1be44''",
      THEN conjunct2, THEN conjunct2, THEN conjunct1] c1 c2 c3
  have r2: "\<not> fst (validate_file_index ?dup example_substituted [])"
    by simp
  from revert_fails_atomically [where re = literal_re and regex_file = "Some example_rules"
      and files_file = "Some (str ''config.txt'')" and cache_path = "str ''cache.tar.gz''"
      and ?w0.0 = example_world and ?w1.0 = example_substituted and k = "str ''config.txt''"
      and g = ?g and g' = ?g' and pre = "[]" and x = 86 and y = 118
      and post = "map of_nat (str ''isit example.invalid today'')"
      and set_order = rev and rglob_order = rev,
      THEN conjunct2, THEN conjunct2, THEN conjunct2] example_apply d1 d2 d3 d4 d5
  have r3: "fst (revert_substitution rev rev
          (example_substituted\<lparr>tree := (tree example_substituted)(str ''config.txt'' \<mapsto> ?g')\<rparr>))
        = Some KeyError
      \<and> tree (snd (revert_substitution rev rev
          (example_substituted\<lparr>tree := (tree example_substituted)(str ''config.txt'' \<mapsto> ?g')\<rparr>)))
        = (tree example_substituted)(str ''config.txt'' \<mapsto> ?g')
      \<and> cache (snd (revert_substitution rev rev
          (example_substituted\<lparr>tree := (tree example_substituted)(str ''config.txt'' \<mapsto> ?g')\<rparr>)))
        = cache example_substituted"
    by simp
  have tm: "(tree example_substituted)(str ''config.txt'' \<mapsto> ?g') = tree example_mutated"
    by (simp add: example_mutated_def example_substituted_def)
  note r3' = r3 [unfolded m, unfolded tm]
  from r1 r2 r3' show ?thesis by simp
qed

end
